theory Spec2Isabelle
  imports Complex_Main "HOL-Library.Sublist" "HOL-Library.AList"
begin

chapter \<open>The embedding\<close>

section \<open>Package patterns: the LLM re-ranker\<close>

text \<open>
  A finite \<^verbatim>\<open>float64\<close> is modelled by its real value. The gate compares scores with
  decimal constants and subtracts two of them: a decimal constant of the source stands
  for the \<^verbatim>\<open>float64\<close> nearest to it and the difference is rounded to the nearest
  \<^verbatim>\<open>float64\<close>, both by the function \<open>float64\<close> of the subsection on \<^verbatim>\<open>float64\<close>
  arithmetic below. NaN and the infinities are not modelled: a score comes from the
  keyword scorer (a number between 0 and 1 in the specification) and a value decoded
  from JSON is always finite. Go strings are byte strings, here \<^typ>\<open>string\<close>.
\<close>

text \<open>
  Modelled from the spec: the type \<^verbatim>\<open>scoredPattern\<close> is declared in a file of the package
  that is not part of the sources at hand; the re-ranker reads its fields \<^verbatim>\<open>name\<close> and
  \<^verbatim>\<open>score\<close> (the spec's ScoredPattern \<^verbatim>\<open>{name, score}\<close>).
\<close>

record scoredPattern =
  name :: string
  score :: real

text \<open>
  Modelled from the spec: \<^verbatim>\<open>IntentCategory\<close> is "an enumerated tag including a distinguished
  Unknown value"; the gate only compares an intent with \<^verbatim>\<open>IntentUnknown\<close>.
\<close>

datatype IntentCategory = IntentUnknown | IntentOther string

text \<open>
  Modelled from the spec: \<^verbatim>\<open>PatternSummary\<close> \<^verbatim>\<open>{name, title, category, description, use_cases[]}\<close>;
  the prompt reads the four fields below.
\<close>

record PatternSummary =
  Title :: string
  Category :: string
  Description :: string
  UseCases :: "string list"

record reRankingResult =
  SelectedPattern :: string
  Confidence :: real
  Reasoning :: string

text \<open>
  The functions of Go's standard library whose results the re-ranker consumes but whose
  exact output no property below depends on are parameters of the model: the \<^verbatim>\<open>%.2f\<close>
  verb of \<^verbatim>\<open>fmt.Sprintf\<close>, \<^verbatim>\<open>strings.TrimSpace\<close> and \<^verbatim>\<open>json.Unmarshal\<close> into a
  \<^verbatim>\<open>reRankingResult\<close> (\<open>Inl\<close> is the decoding error).
\<close>

record golib =
  Sprintf_2f :: "real \<Rightarrow> string"
  TrimSpace :: "string \<Rightarrow> string"
  Unmarshal :: "string \<Rightarrow> string + reRankingResult"

text \<open>
  An LLM provider is its \<^verbatim>\<open>Chat\<close> method on the single user message the re-ranker sends:
  from the prompt to an error (\<open>Inl\<close>) or the content of the response (\<open>Inr\<close>). The
  30 second deadline of the call is one of the ways \<^verbatim>\<open>Chat\<close> returns an error. A nil
  provider is \<open>None\<close>.
\<close>

type_synonym LLMProvider = "(string \<Rightarrow> string + string) option"

datatype rerank_error =
    ErrProviderNil
  | ErrNoCandidates
  | ErrLLMFailed string
  | ErrParse string string
  | ErrNotInCandidates string

subsection \<open>String helpers of the standard library\<close>

definition digitChar :: "nat \<Rightarrow> char" where
  "digitChar n = ''0123456789'' ! n"

fun showNat :: "nat \<Rightarrow> string" where
  "showNat n = (if n < 10 then [digitChar n] else showNat (n div 10) @ [digitChar (n mod 10)])"

declare showNat.simps [simp del]

fun joinStrings :: "string list \<Rightarrow> string \<Rightarrow> string" where
  "joinStrings [] sep = []"
| "joinStrings [x] sep = x"
| "joinStrings (x # y # ys) sep = x @ sep @ joinStrings (y # ys) sep"

text \<open>\<^verbatim>\<open>strings.Index\<close>: the byte index of the first occurrence, or \<open>-1\<close>.\<close>

fun strIndexFrom :: "string \<Rightarrow> string \<Rightarrow> nat \<Rightarrow> int" where
  "strIndexFrom [] sub i = (if sub = [] then int i else - 1)"
| "strIndexFrom (c # cs) sub i =
     (if prefix sub (c # cs) then int i else strIndexFrom cs sub (Suc i))"

definition strIndex :: "string \<Rightarrow> string \<Rightarrow> int" where
  "strIndex s sub = strIndexFrom s sub 0"

definition strContains :: "string \<Rightarrow> string \<Rightarrow> bool" where
  "strContains s sub = (0 \<le> strIndex s sub)"

definition fence :: string where
  "fence = [CHR 0x60, CHR 0x60, CHR 0x60]"

definition fenceJson :: string where
  "fenceJson = fence @ ''json''"

subsection \<open>reRankPatternsWithLLM\<close>

text \<open>The prompt, lines 62 to 96: one numbered block per candidate.\<close>

definition candidateBlock ::
  "golib \<Rightarrow> (string \<rightharpoonup> PatternSummary) \<Rightarrow> nat \<Rightarrow> scoredPattern \<Rightarrow> string" where
  "candidateBlock L summaries i candidate =
     (let summary = (case summaries (name candidate) of
                       Some s \<Rightarrow> s
                     | None \<Rightarrow> \<lparr>Title = [], Category = [], Description = [], UseCases = []\<rparr>)
      in showNat (i + 1) @ ''. '' @ name candidate @ [CHR 0x0A]
         @ ''   Title: '' @ Title summary @ [CHR 0x0A]
         @ ''   Category: '' @ Category summary @ [CHR 0x0A]
         @ ''   Description: '' @ take (min 200 (length (Description summary))) (Description summary)
         @ [CHR 0x0A]
         @ (if 0 < length (UseCases summary)
            then ''   Use Cases: ''
                 @ joinStrings (take (min 3 (length (UseCases summary))) (UseCases summary)) '', ''
                 @ [CHR 0x0A]
            else [])
         @ ''   Keyword Score: '' @ Sprintf_2f L (score candidate) @ [CHR 0x0A, CHR 0x0A])"

fun candidateBlocks ::
  "golib \<Rightarrow> (string \<rightharpoonup> PatternSummary) \<Rightarrow> nat \<Rightarrow> scoredPattern list \<Rightarrow> string" where
  "candidateBlocks L summaries i [] = []"
| "candidateBlocks L summaries i (c # cs) =
     candidateBlock L summaries i c @ candidateBlocks L summaries (Suc i) cs"

definition buildPrompt ::
  "golib \<Rightarrow> string \<Rightarrow> scoredPattern list \<Rightarrow> (string \<rightharpoonup> PatternSummary) \<Rightarrow> string" where
  "buildPrompt L userMessage candidates summaries =
     ''User Query: '' @ [CHR 0x22] @ userMessage @ [CHR 0x22, CHR 0x0A, CHR 0x0A]
     @ ''Candidate Patterns (ranked by keyword matching):'' @ [CHR 0x0A, CHR 0x0A]
     @ candidateBlocks L summaries 0 candidates
     @ [CHR 0x0A] @ ''Task: Select the most relevant pattern for the user's query.'' @ [CHR 0x0A]
     @ ''Consider:'' @ [CHR 0x0A]
     @ ''- Semantic match between query and pattern purpose'' @ [CHR 0x0A]
     @ ''- Use case alignment'' @ [CHR 0x0A]
     @ ''- Category appropriateness'' @ [CHR 0x0A, CHR 0x0A]
     @ ''Respond with JSON:'' @ [CHR 0x0A]
     @ ''{'' @ [CHR 0x0A]
     @ ''  '' @ [CHR 0x22] @ ''selected_pattern'' @ [CHR 0x22] @ '': ''
            @ [CHR 0x22] @ ''pattern_name'' @ [CHR 0x22] @ '','' @ [CHR 0x0A]
     @ ''  '' @ [CHR 0x22] @ ''confidence'' @ [CHR 0x22] @ '': 0.85,'' @ [CHR 0x0A]
     @ ''  '' @ [CHR 0x22] @ ''reasoning'' @ [CHR 0x22] @ '': ''
            @ [CHR 0x22] @ ''Brief explanation why this pattern is best'' @ [CHR 0x22] @ [CHR 0x0A]
     @ ''}''"

text \<open>
  Lines 117 to 130: the text between a \<^verbatim>\<open>json\<close> fence (or else a bare fence) and the next
  fence, when that next fence exists and is not immediately there (\<^verbatim>\<open>end > 0\<close>).
\<close>

definition extractJSON :: "string \<Rightarrow> string" where
  "extractJSON responseText =
     (if strContains responseText fenceJson then
        (let start = nat (strIndex responseText fenceJson) + 7;
             end = strIndex (drop start responseText) fence
         in if 0 < end then take (nat end) (drop start responseText) else responseText)
      else if strContains responseText fence then
        (let start = nat (strIndex responseText fence) + 3;
             end = strIndex (drop start responseText) fence
         in if 0 < end then take (nat end) (drop start responseText) else responseText)
      else responseText)"

text \<open>Lines 140 to 146: the search loop with its \<^verbatim>\<open>break\<close>.\<close>

fun candidateFound :: "scoredPattern list \<Rightarrow> string \<Rightarrow> bool" where
  "candidateFound [] selected = False"
| "candidateFound (candidate # rest) selected =
     (if name candidate = selected then True else candidateFound rest selected)"

text \<open>Lines 155 to 160: two assignments in sequence.\<close>

definition clampConfidence :: "real \<Rightarrow> real" where
  "clampConfidence c =
     (let c1 = (if c < 0.0 then 0.0 else c);
          c2 = (if 1.0 < c1 then 1.0 else c1)
      in c2)"

text \<open>
  The three results of the Go function are the triple (pattern name, confidence, error),
  the error \<open>None\<close> for Go's nil.
\<close>

definition reRankPatternsWithLLM ::
  "golib \<Rightarrow> LLMProvider \<Rightarrow> string \<Rightarrow> scoredPattern list \<Rightarrow> (string \<rightharpoonup> PatternSummary)
     \<Rightarrow> string \<times> real \<times> rerank_error option" where
  "reRankPatternsWithLLM L llmProvider userMessage candidates summaries =
     (case llmProvider of
        None \<Rightarrow> ([], 0.0, Some ErrProviderNil)
      | Some chat \<Rightarrow>
          if length candidates = 0 then ([], 0.0, Some ErrNoCandidates)
          else
            (case chat (buildPrompt L userMessage candidates summaries) of
               Inl err \<Rightarrow> ([], 0.0, Some (ErrLLMFailed err))
             | Inr content \<Rightarrow>
                 (let responseText = TrimSpace L (extractJSON content) in
                  case Unmarshal L responseText of
                    Inl err \<Rightarrow> ([], 0.0, Some (ErrParse err responseText))
                  | Inr result \<Rightarrow>
                      if \<not> candidateFound candidates (SelectedPattern result) then
                        (name (candidates ! 0), score (candidates ! 0),
                         Some (ErrNotInCandidates (SelectedPattern result)))
                      else (SelectedPattern result, clampConfidence (Confidence result), None))))"

subsection \<open>float64 arithmetic\<close>

text \<open>
  IEEE 754 binary64 with Go's rounding (to nearest, a tie to the even significand), on
  real values. A normal \<^verbatim>\<open>float64\<close> with the exponent \<open>e\<close>, from -1022 to 1023, lies
  between \<^verbatim>\<open>2^e\<close> and \<^verbatim>\<open>2^(e+1)\<close> and is a multiple of \<^verbatim>\<open>2^(e-52)\<close> (53 significant
  bits); below \<^verbatim>\<open>2^(-1022)\<close> the subnormal numbers are the multiples of \<^verbatim>\<open>2^(-1074)\<close>.
  The function \<open>float64\<close> gives the \<^verbatim>\<open>float64\<close> nearest to a real: it is how the compiler
  converts a decimal constant such as \<^verbatim>\<open>0.70\<close>, and how the exact result of an
  operation on two \<^verbatim>\<open>float64\<close> values is rounded. Overflow to an infinity (a magnitude
  of \<^verbatim>\<open>2^1024\<close> or more) is outside the model.
\<close>

definition pow2 :: "int \<Rightarrow> real" where
  "pow2 e = (if 0 \<le> e then 2 ^ nat e else 1 / 2 ^ nat (- e))"

text \<open>The nearest integer, a tie going to the even one.\<close>

definition roundHalfEven :: "real \<Rightarrow> int" where
  "roundHalfEven x =
     (let f = \<lfloor>x\<rfloor>; r = x - of_int f
      in if r < 1/2 then f
         else if 1/2 < r then f + 1
         else if even f then f else f + 1)"

text \<open>
  The exponent of the binade of a positive number: for a number below 1 by doubling it
  until it reaches 1, at most 1022 times (the exponent of the subnormal numbers is that
  of the smallest normal ones); for a number from 1 on by halving it until it is below
  2, at most 1023 times.
\<close>

fun binadeDown :: "nat \<Rightarrow> real \<Rightarrow> int" where
  "binadeDown 0 x = 0"
| "binadeDown (Suc n) x = (if 1 \<le> x then 0 else binadeDown n (2 * x) - 1)"

fun binadeUp :: "nat \<Rightarrow> real \<Rightarrow> int" where
  "binadeUp 0 x = 0"
| "binadeUp (Suc n) x = (if x < 2 then 0 else binadeUp n (x / 2) + 1)"

definition binade :: "real \<Rightarrow> int" where
  "binade x = (if 1 \<le> \<bar>x\<bar> then binadeUp 1023 \<bar>x\<bar> else binadeDown 1022 \<bar>x\<bar>)"

definition float64 :: "real \<Rightarrow> real" where
  "float64 x =
     (if x = 0 then 0
      else of_int (roundHalfEven (x / pow2 (binade x - 52))) * pow2 (binade x - 52))"

text \<open>Go's \<^verbatim>\<open>x - y\<close> on two \<^verbatim>\<open>float64\<close> values.\<close>

definition float64_sub :: "real \<Rightarrow> real \<Rightarrow> real" where
  "float64_sub x y = float64 (x - y)"

subsection \<open>shouldInvokeLLMReRanker\<close>

text \<open>
  Lines 202 to 207: the counting loop. Here and in the gate the constants \<^verbatim>\<open>0.60\<close>,
  \<^verbatim>\<open>0.70\<close> and \<^verbatim>\<open>0.20\<close> are \<^verbatim>\<open>float64\<close> constants and the scores \<^verbatim>\<open>float64\<close> values.
\<close>

definition strongCandidates :: "scoredPattern list \<Rightarrow> nat" where
  "strongCandidates scored =
     fold (\<lambda>s n. if float64 0.60 < score s then n + 1 else n) scored 0"

definition shouldInvokeLLMReRanker ::
  "scoredPattern list \<Rightarrow> IntentCategory \<Rightarrow> LLMProvider \<Rightarrow> bool" where
  "shouldInvokeLLMReRanker scored intent llmProvider =
     (if llmProvider = None then False
      else if length scored = 0 then False
      else if intent = IntentUnknown then True
      else if score (scored ! 0) < float64 0.70 then True
      else if 2 \<le> length scored
              \<and> float64_sub (score (scored ! 0)) (score (scored ! 1)) < float64 0.20 then True
      else if 3 \<le> strongCandidates scored then True
      else False)"

text \<open>
  The four gate conditions in the words of the specification: the intent is Unknown; the
  top score is below 0.70; the top two scores are within 0.20 of each other; three or more
  candidates score above 0.60. The numbers are read as the program computes with them:
  the thresholds are the \<^verbatim>\<open>float64\<close> constants, and two scores are within 0.20 of each
  other when the magnitude of their \<^verbatim>\<open>float64\<close> difference is below the constant.
\<close>

definition gateConditions :: "scoredPattern list \<Rightarrow> IntentCategory \<Rightarrow> bool" where
  "gateConditions scored intent =
     (intent = IntentUnknown
      \<or> (scored \<noteq> [] \<and> score (scored ! 0) < float64 0.70)
      \<or> (2 \<le> length scored
          \<and> \<bar>float64_sub (score (scored ! 0)) (score (scored ! 1))\<bar> < float64 0.20)
      \<or> 3 \<le> length (filter (\<lambda>s. float64 0.60 < score s) scored))"

subsection \<open>Concrete inputs\<close>

definition lib0 :: golib where
  "lib0 = \<lparr>Sprintf_2f = (\<lambda>x. ''0.00''), TrimSpace = (\<lambda>s. s),
           Unmarshal = (\<lambda>s. if s = ''A'' then Inr \<lparr>SelectedPattern = ''sql'', Confidence = 3/2, Reasoning = []\<rparr>
                             else if s = ''B'' then Inr \<lparr>SelectedPattern = ''nosuch'', Confidence = 1/2, Reasoning = []\<rparr>
                             else Inl ''invalid character'')\<rparr>"

text \<open>A provider that answers every prompt with the same content.\<close>

definition providerReply :: "string \<Rightarrow> LLMProvider" where
  "providerReply content = Some (\<lambda>prompt. Inr content)"

definition cands0 :: "scoredPattern list" where
  "cands0 = [\<lparr>name = ''etl'', score = 0.65\<rparr>, \<lparr>name = ''sql'', score = 0.55\<rparr>,
             \<lparr>name = ''ml'', score = 0.50\<rparr>]"

text \<open>
  A candidate whose score is the \<^verbatim>\<open>float64\<close> written as the decimal \<open>d\<close>, and the
  second scenario of the specification's recommender example.
\<close>

definition scoredAs :: "string \<Rightarrow> real \<Rightarrow> scoredPattern" where
  "scoredAs n d = \<lparr>name = n, score = float64 d\<rparr>"

definition ranked0 :: "scoredPattern list" where
  "ranked0 = [scoredAs ''etl'' 0.65, scoredAs ''sql'' 0.55, scoredAs ''ml'' 0.50]"

section \<open>Package config: the data directory (pkg/config/paths.go)\<close>

text \<open>
  What the function reads of the process: \<^verbatim>\<open>os.Getenv\<close> (the empty string for a variable
  that is not set), \<^verbatim>\<open>os.UserHomeDir\<close> and \<^verbatim>\<open>os.Getwd\<close> (\<open>None\<close> is their error).
\<close>

record osenv =
  Getenv :: "string \<Rightarrow> string"
  UserHomeDir :: "string option"
  Getwd :: "string option"

subsection \<open>The functions of path/filepath, for slash-separated paths\<close>

text \<open>
  \<^verbatim>\<open>filepath.Clean\<close> as documented: runs of separators count once, a \<^verbatim>\<open>.\<close> element is
  dropped, a \<^verbatim>\<open>..\<close> element removes the element before it (is kept at the front of a
  relative path, and dropped at the root), the empty result is \<^verbatim>\<open>.\<close>.
\<close>

fun splitSlash :: "string \<Rightarrow> string list" where
  "splitSlash [] = [[]]"
| "splitSlash (c # cs) =
     (if c = CHR ''/'' then [] # splitSlash cs
      else (case splitSlash cs of [] \<Rightarrow> [[c]] | e # es \<Rightarrow> (c # e) # es))"

definition cleanStep :: "bool \<Rightarrow> string list \<Rightarrow> string \<Rightarrow> string list" where
  "cleanStep rooted out e =
     (if e = [] \<or> e = ''.'' then out
      else if e = ''..'' then
        (if out \<noteq> [] \<and> last out \<noteq> ''..'' then butlast out
         else if \<not> rooted then out @ [''..'']
         else out)
      else out @ [e])"

definition filepath_IsAbs :: "string \<Rightarrow> bool" where
  "filepath_IsAbs path = prefix ''/'' path"

definition filepath_Clean :: "string \<Rightarrow> string" where
  "filepath_Clean path =
     (if path = [] then ''.''
      else
        (let rooted = filepath_IsAbs path;
             out = joinStrings (foldl (cleanStep rooted) [] (splitSlash path)) ''/''
         in if rooted then ''/'' @ out
            else if out = [] then ''.''
            else out))"

text \<open>\<^verbatim>\<open>filepath.Join\<close>: empty elements at the front are skipped, the rest joined and cleaned.\<close>

fun filepath_Join :: "string list \<Rightarrow> string" where
  "filepath_Join [] = []"
| "filepath_Join (e # es) =
     (if e = [] then filepath_Join es else filepath_Clean (joinStrings (e # es) ''/''))"

text \<open>\<^verbatim>\<open>filepath.Abs\<close>: \<open>None\<close> is its error, the error of \<^verbatim>\<open>os.Getwd\<close>.\<close>

definition filepath_Abs :: "osenv \<Rightarrow> string \<Rightarrow> string option" where
  "filepath_Abs env path =
     (if filepath_IsAbs path then Some (filepath_Clean path)
      else (case Getwd env of None \<Rightarrow> None | Some wd \<Rightarrow> Some (filepath_Join [wd, path])))"

subsection \<open>expandPath and GetLoomDataDir\<close>

definition expandPath :: "osenv \<Rightarrow> string \<Rightarrow> string" where
  "expandPath env path =
     (if prefix ''~/'' path then
        (case UserHomeDir env of
           None \<Rightarrow> path
         | Some homeDir \<Rightarrow> filepath_Join [homeDir, drop 2 path])
      else
        (case filepath_Abs env path of
           None \<Rightarrow> path
         | Some absPath \<Rightarrow> absPath))"

definition GetLoomDataDir :: "osenv \<Rightarrow> string" where
  "GetLoomDataDir env =
     (let dataDir = Getenv env ''LOOM_DATA_DIR'' in
      if dataDir \<noteq> [] then expandPath env dataDir
      else
        (case UserHomeDir env of
           None \<Rightarrow> ''.loom''
         | Some homeDir \<Rightarrow> filepath_Join [homeDir, ''.loom'']))"

subsection \<open>Paths that cleaning leaves alone\<close>

text \<open>
  A plain element is a directory name: not empty, not \<^verbatim>\<open>.\<close>, not \<^verbatim>\<open>..\<close>, without a
  slash. A plain path is plain elements separated by single slashes; a clean absolute
  path is a slash followed by a plain path.
\<close>

definition plain :: "string \<Rightarrow> bool" where
  "plain e = (e \<noteq> [] \<and> e \<noteq> ''.'' \<and> e \<noteq> ''..'' \<and> CHR ''/'' \<notin> set e)"

definition plainPath :: "string \<Rightarrow> bool" where
  "plainPath p = list_all plain (splitSlash p)"

definition isCleanAbs :: "string \<Rightarrow> bool" where
  "isCleanAbs p = (case p of [] \<Rightarrow> False | c # r \<Rightarrow> c = CHR ''/'' \<and> plainPath r)"

subsection \<open>Concrete environments\<close>

definition envOf :: "string \<Rightarrow> string option \<Rightarrow> string option \<Rightarrow> osenv" where
  "envOf dataDir home wd =
     \<lparr>Getenv = (\<lambda>k. if k = ''LOOM_DATA_DIR'' then dataDir else []),
      UserHomeDir = home, Getwd = wd\<rparr>"

section \<open>Package builtin: the request and response of a spawn (pkg/shuttle/builtin/spawn_agent.go)\<close>

text \<open>A Go map that may be nil is an optional map.\<close>

record SpawnSubAgentRequest =
  ParentSessionID :: string
  ParentAgentID :: string
  AgentID :: string
  WorkflowID :: string
  InitialMessage :: string
  AutoSubscribe :: "string list"
  Metadata :: "(string \<rightharpoonup> string) option"

record SpawnSubAgentResponse =
  SubAgentID :: string
  SessionID :: string
  Status :: string
  SubscribedTopics :: "string list"

section \<open>Package server: the spawn manager (pkg/server/spawn_agent.go)\<close>

subsection \<open>The types the file uses\<close>

text \<open>
  Modelled from the spec: \<^verbatim>\<open>agent.Session\<close> is declared in another package; the spawn manager
  fills the five fields of the spec's AgentSession. The field names carry a prefix
  because the request has fields of the same names.
\<close>

record Session =
  sess_ID :: string
  sess_AgentID :: string
  sess_ParentSessionID :: string
  sess_CreatedAt :: int
  sess_UpdatedAt :: int

text \<open>
  Modelled from the spec: a subscription of the message bus, \<^verbatim>\<open>(subscription_id, agent_id,
  topic, optional filter, buffer capacity)\<close>; the spawn manager reads its \<^verbatim>\<open>ID\<close> and
  \<^verbatim>\<open>Topic\<close>.
\<close>

record Subscription =
  sub_ID :: string
  sub_Topic :: string

text \<open>
  Modelled from the spec: \<^verbatim>\<open>spawnedAgentContext\<close> is declared in another file of the package;
  its fields are those of the literal at lines 115 to 126. The cancel function of a
  context is the number of that context (\<open>None\<close> for a nil function).
\<close>

record 'ag spawnedAgentContext =
  parentSessionID :: string
  parentAgentID :: string
  subAgentID :: string
  subSessionID :: string
  workflowID :: string
  agent :: 'ag
  spawnedAt :: int
  subscriptions :: "string list"
  metadata :: "(string \<rightharpoonup> string) option"
  cancelFunc :: "nat option"

text \<open>A log call: its level, its message and its string fields.\<close>

type_synonym logEntry = "string \<times> string \<times> (string \<times> string) list"

text \<open>
  The state of a \<^verbatim>\<open>MultiAgentServer\<close> that the file reads and writes. The spawn table is a
  Go map, here an association list read with \<^const>\<open>map_of\<close> and written with
  \<^const>\<open>AList.update\<close> and \<^const>\<open>AList.delete\<close>, so that its entries can be counted.
  \<open>logger\<close> says whether a logger is configured (otherwise the no-op logger is used and
  nothing is recorded), \<open>logged\<close> holds the log calls made, \<open>canceled\<close> the contexts whose
  cancel function has run, \<open>nextContext\<close> the number of contexts created, and \<open>monitors\<close>
  the monitor goroutines started, each with its context and session id. The message bus
  and the session store are the state of those collaborators.
\<close>

record ('ag, 'reg, 'bus, 'store) server =
  registry :: "'reg option"
  logger :: bool
  messageBus :: "'bus option"
  sessionStore :: 'store
  spawnedAgents :: "(string \<times> 'ag spawnedAgentContext) list"
  canceled :: "nat set"
  nextContext :: nat
  monitors :: "(nat \<times> string) list"
  logged :: "logEntry list"

text \<open>
  The collaborators the file calls, whose code is not in the sources at hand, are
  parameters: the server's \<^verbatim>\<open>getOrLoadAgent\<close> (from the registry and an agent id to an error
  or an agent; taken not to touch the spawn table), the session store's \<^verbatim>\<open>SaveSession\<close>,
  and the bus's \<^verbatim>\<open>Subscribe\<close>, \<^verbatim>\<open>GetSubscriptionsByAgent\<close> and \<^verbatim>\<open>Unsubscribe\<close>. An error is
  its message.
\<close>

record ('ag, 'reg, 'bus, 'store) deps =
  getOrLoadAgent :: "'reg \<Rightarrow> string \<Rightarrow> string + 'ag"
  SaveSession :: "'store \<Rightarrow> Session \<Rightarrow> string option \<times> 'store"
  Subscribe :: "'bus \<Rightarrow> string \<Rightarrow> string \<Rightarrow> (string + Subscription) \<times> 'bus"
  GetSubscriptionsByAgent :: "'bus \<Rightarrow> string \<Rightarrow> Subscription list"
  Unsubscribe :: "'bus \<Rightarrow> string \<Rightarrow> 'bus"

datatype spawn_error =
    ErrRequestNil
  | ErrParentSessionRequired
  | ErrAgentIDRequired
  | ErrRegistryNotConfigured
  | ErrSpawnLimit nat nat
  | ErrLoadAgent string string
  | ErrCreateSession string

subsection \<open>Helpers\<close>

definition logmsg ::
  "string \<Rightarrow> string \<Rightarrow> (string \<times> string) list
     \<Rightarrow> ('ag, 'reg, 'bus, 'store) server \<Rightarrow> ('ag, 'reg, 'bus, 'store) server" where
  "logmsg level msg kvs s =
     (if logger s then s\<lparr>logged := logged s @ [(level, msg, kvs)]\<rparr> else s)"

definition truncateString :: "string \<Rightarrow> nat \<Rightarrow> string" where
  "truncateString s maxLen = (if length s \<le> maxLen then s else take maxLen s @ ''...'')"

subsection \<open>countSpawnedAgentsByParent\<close>

definition countSpawnedAgentsByParent ::
  "('ag, 'reg, 'bus, 'store) server \<Rightarrow> string \<Rightarrow> nat" where
  "countSpawnedAgentsByParent s parent =
     fold (\<lambda>(sessionID, spawned) count.
             if parentSessionID spawned = parent then count + 1 else count)
          (spawnedAgents s) 0"

subsection \<open>SpawnSubAgent\<close>

text \<open>
  Lines 92 to 109: the subscription loop. It threads the bus, the server (for its log)
  and the topics subscribed so far; a failed subscription is logged and skipped. Every
  call of \<^verbatim>\<open>Subscribe\<close> has the same last two arguments (no filter, a buffer of 100),
  which the model leaves to the bus.
\<close>

fun autoSubscribeLoop ::
  "('ag, 'reg, 'bus, 'store) deps \<Rightarrow> string \<Rightarrow> string list
     \<Rightarrow> 'bus \<Rightarrow> ('ag, 'reg, 'bus, 'store) server \<Rightarrow> string list
     \<Rightarrow> 'bus \<times> ('ag, 'reg, 'bus, 'store) server \<times> string list" where
  "autoSubscribeLoop D subAgent [] bus s subscribedTopics = (bus, s, subscribedTopics)"
| "autoSubscribeLoop D subAgent (topic # rest) bus s subscribedTopics =
     (case Subscribe D bus subAgent topic of
        (Inl err, bus') \<Rightarrow>
          autoSubscribeLoop D subAgent rest bus'
            (logmsg ''warn'' ''Failed to auto-subscribe to topic''
               [(''topic'', topic), (''sub_agent_id'', subAgent), (''error'', err)] s)
            subscribedTopics
      | (Inr subscription, bus') \<Rightarrow>
          autoSubscribeLoop D subAgent rest bus'
            (logmsg ''info'' ''Auto-subscribed spawned agent to topic''
               [(''sub_agent_id'', subAgent), (''topic'', topic),
                (''subscription_id'', sub_ID subscription)] s)
            (subscribedTopics @ [topic]))"

text \<open>
  Lines 92 to 109 as a whole: nothing is subscribed without a bus or without topics.
\<close>

definition autoSubscribeAll ::
  "('ag, 'reg, 'bus, 'store) deps \<Rightarrow> string \<Rightarrow> SpawnSubAgentRequest
     \<Rightarrow> ('ag, 'reg, 'bus, 'store) server
     \<Rightarrow> ('ag, 'reg, 'bus, 'store) server \<times> string list" where
  "autoSubscribeAll D subAgent req s =
     (case messageBus s of
        None \<Rightarrow> (s, [])
      | Some bus \<Rightarrow>
          if 0 < length (AutoSubscribe req) then
            (case autoSubscribeLoop D subAgent (AutoSubscribe req) bus s [] of
               (bus', s', subscribedTopics) \<Rightarrow> (s'\<lparr>messageBus := Some bus'\<rparr>, subscribedTopics))
          else (s, []))"

text \<open>
  Lines 111 to 166: the context with its cancel function, the entry of the spawn table,
  the initial message kept in the entry's metadata, the monitor goroutine and the
  response. The entry is a pointer in Go, so the metadata written after the insertion
  is the metadata of the entry in the table. (The map is also the request's own when
  that is not nil; the request is not part of the server.)
\<close>

definition trackSpawnedAgent ::
  "SpawnSubAgentRequest \<Rightarrow> string \<Rightarrow> string \<Rightarrow> 'ag \<Rightarrow> int \<Rightarrow> string list
     \<Rightarrow> ('ag, 'reg, 'bus, 'store) server
     \<Rightarrow> SpawnSubAgentResponse \<times> ('ag, 'reg, 'bus, 'store) server" where
  "trackSpawnedAgent req subAgent sessionID ag now subscribedTopics s3 =
     (let cancel = nextContext s3;
          spawnedAgent = \<lparr>parentSessionID = ParentSessionID req,
                          parentAgentID = ParentAgentID req,
                          subAgentID = subAgent,
                          subSessionID = sessionID,
                          workflowID = WorkflowID req,
                          agent = ag,
                          spawnedAt = now,
                          subscriptions = subscribedTopics,
                          metadata = Metadata req,
                          cancelFunc = Some cancel\<rparr>;
          s4 = s3\<lparr>nextContext := cancel + 1,
                  spawnedAgents := AList.update sessionID spawnedAgent (spawnedAgents s3)\<rparr>;
          s5 = logmsg ''info'' ''Spawned sub-agent tracked''
                 [(''session_id'', sessionID), (''sub_agent_id'', subAgent),
                  (''subscribed_topics'', showNat (length subscribedTopics))] s4;
          s6 = (if InitialMessage req \<noteq> [] then
                  logmsg ''info''
                    ''Initial message stored in metadata (parent should send via send_message/publish)''
                    [(''session_id'', sessionID),
                     (''message_preview'', truncateString (InitialMessage req) 50)]
                    (s5\<lparr>spawnedAgents :=
                          AList.update sessionID
                            (spawnedAgent\<lparr>metadata :=
                               Some ((case metadata spawnedAgent of None \<Rightarrow> Map.empty | Some m \<Rightarrow> m)
                                     (''initial_message'' \<mapsto> InitialMessage req))\<rparr>)
                            (spawnedAgents s5)\<rparr>)
                else s5);
          s7 = s6\<lparr>monitors := monitors s6 @ [(cancel, sessionID)]\<rparr>;
          resp = \<lparr>SubAgentID = subAgent, SessionID = sessionID, Status = ''spawned'',
                  SubscribedTopics = subscribedTopics\<rparr>;
          s8 = logmsg ''info'' ''Sub-agent spawn complete''
                 [(''sub_agent_id'', subAgent), (''session_id'', sessionID),
                  (''subscribed_topics'', showNat (length subscribedTopics))] s7
      in (resp, s8))"

text \<open>
  The function itself. \<open>newSessionID\<close> is what \<^verbatim>\<open>GenerateSessionID()\<close> returns in this
  call and \<open>now\<close> what the clock reads; a nil request is \<open>None\<close>. The result is the
  error or the response, and the server afterwards.
\<close>

definition SpawnSubAgent ::
  "('ag, 'reg, 'bus, 'store) deps \<Rightarrow> string \<Rightarrow> int
     \<Rightarrow> ('ag, 'reg, 'bus, 'store) server \<Rightarrow> SpawnSubAgentRequest option
     \<Rightarrow> (spawn_error + SpawnSubAgentResponse) \<times> ('ag, 'reg, 'bus, 'store) server" where
  "SpawnSubAgent D newSessionID now s request =
     (case request of
        None \<Rightarrow> (Inl ErrRequestNil, s)
      | Some req \<Rightarrow>
     if ParentSessionID req = [] then (Inl ErrParentSessionRequired, s)
     else if AgentID req = [] then (Inl ErrAgentIDRequired, s)
     else
     (case registry s of
        None \<Rightarrow> (Inl ErrRegistryNotConfigured, s)
      | Some reg \<Rightarrow>
     (let s1 = logmsg ''info'' ''Spawning sub-agent''
                 [(''parent_session'', ParentSessionID req), (''parent_agent'', ParentAgentID req),
                  (''agent_id'', AgentID req), (''workflow_id'', WorkflowID req)] s;
          existingSpawns = countSpawnedAgentsByParent s1 (ParentSessionID req);
          maxSpawnsPerParent = 10
      in
     if maxSpawnsPerParent \<le> existingSpawns
     then (Inl (ErrSpawnLimit existingSpawns maxSpawnsPerParent), s1)
     else
     (let subAgent = (if WorkflowID req \<noteq> [] then WorkflowID req @ '':'' @ AgentID req
                      else AgentID req)
      in
     (case getOrLoadAgent D reg (AgentID req) of
        Inl err \<Rightarrow> (Inl (ErrLoadAgent (AgentID req) err), s1)
      | Inr ag \<Rightarrow>
     (let sessionID = newSessionID;
          session = \<lparr>sess_ID = sessionID, sess_AgentID = AgentID req,
                     sess_ParentSessionID = ParentSessionID req,
                     sess_CreatedAt = now, sess_UpdatedAt = now\<rparr>
      in
     (case SaveSession D (sessionStore s1) session of
        (Some err, store') \<Rightarrow> (Inl (ErrCreateSession err), s1\<lparr>sessionStore := store'\<rparr>)
      | (None, store') \<Rightarrow>
     (let s2 = logmsg ''info'' ''Created sub-agent session''
                 [(''session_id'', sessionID), (''sub_agent_id'', subAgent)]
                 (s1\<lparr>sessionStore := store'\<rparr>)
      in
     (case autoSubscribeAll D subAgent req s2 of
        (s3, subscribedTopics) \<Rightarrow>
     (case trackSpawnedAgent req subAgent sessionID ag now subscribedTopics s3 of
        (resp, s8) \<Rightarrow> (Inr resp, s8)))))))))))"

subsection \<open>cleanupSpawnedAgent and cleanupSpawnedAgentsByParent\<close>

text \<open>Lines 255 to 262: the inner loop over one snapshot of the agent's subscriptions.\<close>

fun unsubscribeTopic ::
  "('ag, 'reg, 'bus, 'store) deps \<Rightarrow> string \<Rightarrow> string \<Rightarrow> Subscription list
     \<Rightarrow> 'bus \<Rightarrow> ('ag, 'reg, 'bus, 'store) server
     \<Rightarrow> 'bus \<times> ('ag, 'reg, 'bus, 'store) server" where
  "unsubscribeTopic D subAgent topic [] bus s = (bus, s)"
| "unsubscribeTopic D subAgent topic (sub # rest) bus s =
     (if sub_Topic sub = topic then
        unsubscribeTopic D subAgent topic rest (Unsubscribe D bus (sub_ID sub))
          (logmsg ''debug'' ''Unsubscribed spawned agent from topic''
             [(''sub_agent_id'', subAgent), (''topic'', topic)] s)
      else unsubscribeTopic D subAgent topic rest bus s)"

text \<open>Lines 252 to 263: the outer loop, which takes a new snapshot for every topic.\<close>

fun unsubscribeTopics ::
  "('ag, 'reg, 'bus, 'store) deps \<Rightarrow> string \<Rightarrow> string list
     \<Rightarrow> 'bus \<Rightarrow> ('ag, 'reg, 'bus, 'store) server
     \<Rightarrow> 'bus \<times> ('ag, 'reg, 'bus, 'store) server" where
  "unsubscribeTopics D subAgent [] bus s = (bus, s)"
| "unsubscribeTopics D subAgent (topic # rest) bus s =
     (case unsubscribeTopic D subAgent topic (GetSubscriptionsByAgent D bus subAgent) bus s of
        (bus', s') \<Rightarrow> unsubscribeTopics D subAgent rest bus' s')"

definition cleanupSpawnedAgent ::
  "('ag, 'reg, 'bus, 'store) deps \<Rightarrow> ('ag, 'reg, 'bus, 'store) server \<Rightarrow> string \<Rightarrow> string
     \<Rightarrow> ('ag, 'reg, 'bus, 'store) server" where
  "cleanupSpawnedAgent D s sessionID reason =
     (case map_of (spawnedAgents s) sessionID of
        None \<Rightarrow> s
      | Some spawned \<Rightarrow>
          (let s1 = s\<lparr>spawnedAgents := AList.delete sessionID (spawnedAgents s)\<rparr>;
               s2 = logmsg ''info'' ''Cleaning up spawned agent''
                      [(''session_id'', sessionID), (''sub_agent_id'', subAgentID spawned),
                       (''reason'', reason)] s1;
               s3 = (case cancelFunc spawned of
                       None \<Rightarrow> s2
                     | Some cancel \<Rightarrow> s2\<lparr>canceled := insert cancel (canceled s2)\<rparr>);
               s4 = (case messageBus s3 of
                       None \<Rightarrow> s3
                     | Some bus \<Rightarrow>
                         (case unsubscribeTopics D (subAgentID spawned) (subscriptions spawned) bus s3 of
                            (bus', s') \<Rightarrow> s'\<lparr>messageBus := Some bus'\<rparr>))
           in logmsg ''info'' ''Spawned agent cleanup complete''
                [(''session_id'', sessionID), (''sub_agent_id'', subAgentID spawned)] s4))"

text \<open>
  Lines 272 to 296. The ids are collected in the order of the table (Go leaves the order
  of a map's iteration open).
\<close>

definition cleanupSpawnedAgentsByParent ::
  "('ag, 'reg, 'bus, 'store) deps \<Rightarrow> ('ag, 'reg, 'bus, 'store) server \<Rightarrow> string
     \<Rightarrow> ('ag, 'reg, 'bus, 'store) server" where
  "cleanupSpawnedAgentsByParent D s parent =
     (let toCleanup = map fst (filter (\<lambda>(sessionID, spawned). parentSessionID spawned = parent)
                                 (spawnedAgents s))
      in if 0 < length toCleanup then
           fold (\<lambda>sessionID s'. cleanupSpawnedAgent D s' sessionID ''parent session ended'')
                toCleanup
                (logmsg ''info'' ''Cleaning up spawned agents for parent''
                   [(''parent_session'', parent), (''spawned_count'', showNat (length toCleanup))] s)
         else s)"

subsection \<open>Runs of the spawn manager\<close>

text \<open>
  The operations of the file on the spawn table, run one after another: each call
  completes before the next one starts. The monitor of a child (a goroutine driven by a
  ticker) acts on the server only through \<^verbatim>\<open>cleanupSpawnedAgent\<close>, so its effect is an
  \<open>OpCleanup\<close>.
\<close>

datatype spawn_op =
    OpSpawn string int "SpawnSubAgentRequest option"
  | OpCleanup string string
  | OpCleanupByParent string

fun applyOp ::
  "('ag, 'reg, 'bus, 'store) deps \<Rightarrow> ('ag, 'reg, 'bus, 'store) server \<Rightarrow> spawn_op
     \<Rightarrow> ('ag, 'reg, 'bus, 'store) server" where
  "applyOp D s (OpSpawn newSessionID now request) = snd (SpawnSubAgent D newSessionID now s request)"
| "applyOp D s (OpCleanup sessionID reason) = cleanupSpawnedAgent D s sessionID reason"
| "applyOp D s (OpCleanupByParent parent) = cleanupSpawnedAgentsByParent D s parent"

definition runOps ::
  "('ag, 'reg, 'bus, 'store) deps \<Rightarrow> ('ag, 'reg, 'bus, 'store) server \<Rightarrow> spawn_op list
     \<Rightarrow> ('ag, 'reg, 'bus, 'store) server" where
  "runOps D s ops = foldl (applyOp D) s ops"

subsection \<open>The two critical sections of SpawnSubAgent\<close>

text \<open>
  \<^verbatim>\<open>SpawnSubAgent\<close> takes the lock of the spawn table twice: the read lock while
  \<^verbatim>\<open>countSpawnedAgentsByParent\<close> counts (line 54) and the write lock for the insertion
  (lines 128 to 130). The function is its first part, lines 21 to 58, followed, when
  the limit check passes, by the rest; between the two the lock is free.
\<close>

definition spawnLimitCheck ::
  "('ag, 'reg, 'bus, 'store) server \<Rightarrow> SpawnSubAgentRequest option
     \<Rightarrow> (spawn_error + 'reg) \<times> ('ag, 'reg, 'bus, 'store) server" where
  "spawnLimitCheck s request =
     (case request of
        None \<Rightarrow> (Inl ErrRequestNil, s)
      | Some req \<Rightarrow>
     if ParentSessionID req = [] then (Inl ErrParentSessionRequired, s)
     else if AgentID req = [] then (Inl ErrAgentIDRequired, s)
     else
     (case registry s of
        None \<Rightarrow> (Inl ErrRegistryNotConfigured, s)
      | Some reg \<Rightarrow>
     (let s1 = logmsg ''info'' ''Spawning sub-agent''
                 [(''parent_session'', ParentSessionID req), (''parent_agent'', ParentAgentID req),
                  (''agent_id'', AgentID req), (''workflow_id'', WorkflowID req)] s;
          existingSpawns = countSpawnedAgentsByParent s1 (ParentSessionID req);
          maxSpawnsPerParent = 10
      in
     if maxSpawnsPerParent \<le> existingSpawns
     then (Inl (ErrSpawnLimit existingSpawns maxSpawnsPerParent), s1)
     else (Inr reg, s1))))"

text \<open>Lines 60 to 166, entered with the registry read in the first part.\<close>

definition spawnAfterLimitCheck ::
  "('ag, 'reg, 'bus, 'store) deps \<Rightarrow> string \<Rightarrow> int \<Rightarrow> 'reg \<Rightarrow> SpawnSubAgentRequest
     \<Rightarrow> ('ag, 'reg, 'bus, 'store) server
     \<Rightarrow> (spawn_error + SpawnSubAgentResponse) \<times> ('ag, 'reg, 'bus, 'store) server" where
  "spawnAfterLimitCheck D newSessionID now reg req s1 =
     (let subAgent = (if WorkflowID req \<noteq> [] then WorkflowID req @ '':'' @ AgentID req
                      else AgentID req)
      in
     (case getOrLoadAgent D reg (AgentID req) of
        Inl err \<Rightarrow> (Inl (ErrLoadAgent (AgentID req) err), s1)
      | Inr ag \<Rightarrow>
     (let sessionID = newSessionID;
          session = \<lparr>sess_ID = sessionID, sess_AgentID = AgentID req,
                     sess_ParentSessionID = ParentSessionID req,
                     sess_CreatedAt = now, sess_UpdatedAt = now\<rparr>
      in
     (case SaveSession D (sessionStore s1) session of
        (Some err, store') \<Rightarrow> (Inl (ErrCreateSession err), s1\<lparr>sessionStore := store'\<rparr>)
      | (None, store') \<Rightarrow>
     (let s2 = logmsg ''info'' ''Created sub-agent session''
                 [(''session_id'', sessionID), (''sub_agent_id'', subAgent)]
                 (s1\<lparr>sessionStore := store'\<rparr>)
      in
     (case autoSubscribeAll D subAgent req s2 of
        (s3, subscribedTopics) \<Rightarrow>
     (case trackSpawnedAgent req subAgent sessionID ag now subscribedTopics s3 of
        (resp, s8) \<Rightarrow> (Inr resp, s8))))))))"

text \<open>
  Two calls that overlap: both run their first part before either runs the rest.
\<close>

definition overlappedSpawns ::
  "('ag, 'reg, 'bus, 'store) deps \<Rightarrow> string \<Rightarrow> int \<Rightarrow> SpawnSubAgentRequest
     \<Rightarrow> string \<Rightarrow> int \<Rightarrow> SpawnSubAgentRequest \<Rightarrow> ('ag, 'reg, 'bus, 'store) server
     \<Rightarrow> (spawn_error + SpawnSubAgentResponse) \<times> (spawn_error + SpawnSubAgentResponse)
         \<times> ('ag, 'reg, 'bus, 'store) server" where
  "overlappedSpawns D sidA nowA reqA sidB nowB reqB s =
     (case spawnLimitCheck s (Some reqA) of (checkA, s1) \<Rightarrow>
      case spawnLimitCheck s1 (Some reqB) of (checkB, s2) \<Rightarrow>
      case (case checkA of
              Inl err \<Rightarrow> (Inl err, s2)
            | Inr reg \<Rightarrow> spawnAfterLimitCheck D sidA nowA reg reqA s2) of (resultA, s3) \<Rightarrow>
      case (case checkB of
              Inl err \<Rightarrow> (Inl err, s3)
            | Inr reg \<Rightarrow> spawnAfterLimitCheck D sidB nowB reg reqB s3) of (resultB, s4) \<Rightarrow>
      (resultA, resultB, s4))"

subsection \<open>Notions used to state the properties of a spawn\<close>

text \<open>
  The full id of the sub-agent of a request (lines 61 to 64); what it takes for a
  request to reach the subscriptions (it passes the validation and the limit, the agent
  loads and the session is saved); and the outcome of every \<^verbatim>\<open>Subscribe\<close> call for a list
  of topics, the calls made one after the other on the bus: each topic with whether its
  call succeeded.
\<close>

fun subscribeOutcomes ::
  "('ag, 'reg, 'bus, 'store) deps \<Rightarrow> string \<Rightarrow> string list \<Rightarrow> 'bus \<Rightarrow> (string \<times> bool) list" where
  "subscribeOutcomes D subAgent [] bus = []"
| "subscribeOutcomes D subAgent (topic # rest) bus =
     (case Subscribe D bus subAgent topic of
        (result, bus') \<Rightarrow> (topic, \<not> isl result) # subscribeOutcomes D subAgent rest bus')"

definition subAgentIDOf :: "SpawnSubAgentRequest \<Rightarrow> string" where
  "subAgentIDOf req =
     (if WorkflowID req \<noteq> [] then WorkflowID req @ '':'' @ AgentID req else AgentID req)"

definition spawnAdmitted ::
  "('ag, 'reg, 'bus, 'store) deps \<Rightarrow> string \<Rightarrow> int \<Rightarrow> ('ag, 'reg, 'bus, 'store) server
     \<Rightarrow> SpawnSubAgentRequest \<Rightarrow> bool" where
  "spawnAdmitted D newSessionID now s req =
     (ParentSessionID req \<noteq> [] \<and> AgentID req \<noteq> []
      \<and> (case registry s of
            None \<Rightarrow> False
          | Some reg \<Rightarrow> \<not> isl (getOrLoadAgent D reg (AgentID req)))
      \<and> countSpawnedAgentsByParent s (ParentSessionID req) < 10
      \<and> fst (SaveSession D (sessionStore s)
                \<lparr>sess_ID = newSessionID, sess_AgentID = AgentID req,
                 sess_ParentSessionID = ParentSessionID req,
                 sess_CreatedAt = now, sess_UpdatedAt = now\<rparr>) = None)"

subsection \<open>Concrete collaborators, servers and requests\<close>

text \<open>
  A registry is the list of agent ids it knows, a session store the list of sessions
  saved, and a bus the list of its subscriptions, each with the subscribing agent; the
  bus refuses every subscription to the topic \<^verbatim>\<open>closed\<close>.
\<close>

definition deps0 :: "(string, string list, (string \<times> Subscription) list, Session list) deps" where
  "deps0 =
     \<lparr>getOrLoadAgent = (\<lambda>reg agentID. if agentID \<in> set reg then Inr agentID
                                       else Inl ''agent not found''),
      SaveSession = (\<lambda>store session. (None, store @ [session])),
      Subscribe = (\<lambda>bus subAgent topic.
         if topic = ''closed'' then (Inl ''topic is closed'', bus)
         else (Inr \<lparr>sub_ID = subAgent @ ''/'' @ topic, sub_Topic = topic\<rparr>,
               bus @ [(subAgent, \<lparr>sub_ID = subAgent @ ''/'' @ topic, sub_Topic = topic\<rparr>)])),
      GetSubscriptionsByAgent = (\<lambda>bus subAgent. map snd (filter (\<lambda>(a, sub). a = subAgent) bus)),
      Unsubscribe = (\<lambda>bus subID. filter (\<lambda>(a, sub). sub_ID sub \<noteq> subID) bus)\<rparr>"

definition srv0 :: "(string, string list, (string \<times> Subscription) list, Session list) server" where
  "srv0 = \<lparr>registry = Some [''fighter'', ''wizard''], logger = True, messageBus = Some [],
           sessionStore = [], spawnedAgents = [], canceled = {}, nextContext = 0,
           monitors = [], logged = []\<rparr>"

definition childOf :: "string \<Rightarrow> string \<Rightarrow> string spawnedAgentContext" where
  "childOf parent sessionID =
     \<lparr>parentSessionID = parent, parentAgentID = ''dm'', subAgentID = ''fighter'',
      subSessionID = sessionID, workflowID = [], agent = ''fighter'', spawnedAt = 0,
      subscriptions = [], metadata = None, cancelFunc = None\<rparr>"

definition srvFull :: "(string, string list, (string \<times> Subscription) list, Session list) server" where
  "srvFull = srv0\<lparr>spawnedAgents :=
      map (\<lambda>sessionID. (sessionID, childOf ''p'' sessionID))
        [''c0'', ''c1'', ''c2'', ''c3'', ''c4'', ''c5'', ''c6'', ''c7'', ''c8'', ''c9'']\<rparr>"

definition reqOf :: "string \<Rightarrow> string \<Rightarrow> string list \<Rightarrow> SpawnSubAgentRequest" where
  "reqOf parent agentID topics =
     \<lparr>ParentSessionID = parent, ParentAgentID = ''dm'', AgentID = agentID, WorkflowID = ''dungeon'',
      InitialMessage = [], AutoSubscribe = topics, Metadata = None\<rparr>"

definition srvOne :: "(string, string list, (string \<times> Subscription) list, Session list) server" where
  "srvOne = srv0\<lparr>spawnedAgents :=
               [(''c1'', (childOf ''p'' ''c1'')\<lparr>subscriptions := [''party''], cancelFunc := Some 0\<rparr>)],
             messageBus := Some [(''fighter'', \<lparr>sub_ID = ''fighter/party'', sub_Topic = ''party''\<rparr>),
                                 (''wizard'', \<lparr>sub_ID = ''wizard/party'', sub_Topic = ''party''\<rparr>)],
             nextContext := 1\<rparr>"

text \<open>A server on which the parent \<^verbatim>\<open>p\<close> has nine children.\<close>

definition srvNine :: "(string, string list, (string \<times> Subscription) list, Session list) server" where
  "srvNine = srv0\<lparr>spawnedAgents :=
      map (\<lambda>sessionID. (sessionID, childOf ''p'' sessionID))
        [''c0'', ''c1'', ''c2'', ''c3'', ''c4'', ''c5'', ''c6'', ''c7'', ''c8'']\<rparr>"

section \<open>Package builtin: the spawn_agent tool (pkg/shuttle/builtin/spawn_agent.go)\<close>

text \<open>
  A value of Go's empty interface, as far as the tool reads or writes one: nil, a
  boolean, a number, a string, a slice of strings (\<^verbatim>\<open>[]string\<close>), a slice of values
  (\<^verbatim>\<open>[]any\<close>) and a map from strings to values (its entries, one per key).
\<close>

datatype anyval =
    VNil
  | VBool bool
  | VNumber real
  | VString string
  | VStrings "string list"
  | VSlice "anyval list"
  | VMap "(string \<times> anyval) list"

text \<open>
  Modelled from the spec: \<^verbatim>\<open>shuttle.Error\<close> and \<^verbatim>\<open>shuttle.Result\<close> are declared in another
  package; a failure carries \<^verbatim>\<open>{code, message, suggestion, retryable}\<close>, and the tool fills
  the fields below (a field it leaves out has Go's zero value; the result's metadata
  carries a prefix because the request has a field of that name).
\<close>

record shuttle_Error =
  Code :: string
  Message :: string
  Suggestion :: string
  Retryable :: bool

record shuttle_Result =
  Success :: bool
  Data :: anyval
  Error :: "shuttle_Error option"
  ResultMetadata :: "(string \<times> anyval) list option"
  ExecutionTimeMs :: int

text \<open>
  The tool. Its handler is the \<^verbatim>\<open>SpawnHandler\<close> interface: from the state \<open>'w\<close> of whatever
  implements it and a request to an error message or a response, and the state
  afterwards; a nil handler is \<open>None\<close>. The field names carry a prefix because the spawn
  table's entries have fields of the same names.
\<close>

record 'w SpawnAgentTool =
  tool_handler :: "('w \<Rightarrow> SpawnSubAgentRequest \<Rightarrow> (string + SpawnSubAgentResponse) \<times> 'w) option"
  tool_parentSession :: string
  tool_parentAgentID :: string

text \<open>
  The type assertion \<^verbatim>\<open>params[key].(string)\<close>: it fails for a missing key (a nil
  interface) and for a value that is not a string.
\<close>

fun assertString :: "anyval option \<Rightarrow> string option" where
  "assertString (Some (VString s)) = Some s"
| "assertString v = None"

text \<open>
  Lines 156 to 160 and 166 to 170: the loops that keep the strings of a slice and the
  string entries of a map.
\<close>

fun topicStrings :: "anyval list \<Rightarrow> string list" where
  "topicStrings [] = []"
| "topicStrings (VString topicStr # rest) = topicStr # topicStrings rest"
| "topicStrings (v # rest) = topicStrings rest"

fun metadataStrings :: "(string \<times> anyval) list \<Rightarrow> (string \<rightharpoonup> string) \<Rightarrow> (string \<rightharpoonup> string)" where
  "metadataStrings [] m = m"
| "metadataStrings ((k, VString strVal) # rest) m = metadataStrings rest (m(k \<mapsto> strVal))"
| "metadataStrings ((k, v) # rest) m = metadataStrings rest m"

text \<open>
  Lines 141 to 182: the optional parameters and the request.
\<close>

definition buildRequest ::
  "'w SpawnAgentTool \<Rightarrow> string \<Rightarrow> (string \<rightharpoonup> anyval) \<Rightarrow> SpawnSubAgentRequest" where
  "buildRequest t agentID params =
     (let workflowID = (case assertString (params ''workflow_id'') of Some wid \<Rightarrow> wid | None \<Rightarrow> []);
          initialMessage = (case assertString (params ''initial_message'') of Some msg \<Rightarrow> msg | None \<Rightarrow> []);
          autoSubscribe = (case params ''auto_subscribe'' of
                             Some (VSlice sub) \<Rightarrow> topicStrings sub
                           | _ \<Rightarrow> []);
          metadata = (case params ''metadata'' of
                        Some (VMap md) \<Rightarrow> metadataStrings md Map.empty
                      | _ \<Rightarrow> Map.empty)
      in \<lparr>ParentSessionID = tool_parentSession t,
          ParentAgentID = tool_parentAgentID t,
          AgentID = agentID,
          WorkflowID = workflowID,
          InitialMessage = initialMessage,
          AutoSubscribe = autoSubscribe,
          Metadata = Some metadata\<rparr>)"

text \<open>
  A failed result: \<^verbatim>\<open>Success\<close> false, the error, and the time measured.
\<close>

definition failedResult :: "shuttle_Error \<Rightarrow> int \<Rightarrow> shuttle_Result" where
  "failedResult e elapsedMs =
     \<lparr>Success = False, Data = VNil, Error = Some e, ResultMetadata = None,
      ExecutionTimeMs = elapsedMs\<rparr>"

text \<open>
  \<^verbatim>\<open>Execute\<close>. \<open>elapsedMs\<close> is what \<^verbatim>\<open>time.Since(start).Milliseconds()\<close> measures. The
  result is the pair the Go function returns (the \<^verbatim>\<open>Result\<close>, and the Go error, \<open>None\<close> for
  nil) and the handler's state afterwards.
\<close>

definition Execute ::
  "'w SpawnAgentTool \<Rightarrow> int \<Rightarrow> (string \<rightharpoonup> anyval) \<Rightarrow> 'w
     \<Rightarrow> (shuttle_Result \<times> string option) \<times> 'w" where
  "Execute t elapsedMs params w =
     (case tool_handler t of
        None \<Rightarrow>
          ((failedResult
              \<lparr>Code = ''SPAWN_NOT_AVAILABLE'',
               Message = ''Agent spawning not configured for this server'',
               Suggestion = ''spawn_agent requires MultiAgentServer with agent registry'',
               Retryable = False\<rparr> elapsedMs, None), w)
      | Some h \<Rightarrow>
          (case assertString (params ''agent_id'') of
             None \<Rightarrow>
               ((failedResult
                   \<lparr>Code = ''INVALID_AGENT_ID'',
                    Message = ''agent_id must be a non-empty string'',
                    Suggestion = ''Provide agent_id like 'fighter' or 'analyst'' @ [CHR 0x27],
                    Retryable = False\<rparr> elapsedMs, None), w)
           | Some agentID \<Rightarrow>
               if agentID = [] then
                 ((failedResult
                     \<lparr>Code = ''INVALID_AGENT_ID'',
                      Message = ''agent_id must be a non-empty string'',
                      Suggestion = ''Provide agent_id like 'fighter' or 'analyst'' @ [CHR 0x27],
                      Retryable = False\<rparr> elapsedMs, None), w)
               else
                 (case h w (buildRequest t agentID params) of
                    (Inl err, w') \<Rightarrow>
                      ((failedResult
                          \<lparr>Code = ''SPAWN_FAILED'',
                           Message = ''Failed to spawn agent: '' @ err,
                           Suggestion = ''Check if agent config exists and server has capacity'',
                           Retryable = True\<rparr> elapsedMs, None), w')
                  | (Inr resp, w') \<Rightarrow>
                      ((\<lparr>Success = True,
                         Data = VMap [(''success'', VBool True),
                                      (''sub_agent_id'', VString (SubAgentID resp)),
                                      (''session_id'', VString (SessionID resp)),
                                      (''status'', VString (Status resp)),
                                      (''subscribed_topics'', VStrings (SubscribedTopics resp))],
                         Error = None,
                         ResultMetadata = Some [(''sub_agent_id'', VString (SubAgentID resp)),
                                                (''session_id'', VString (SessionID resp)),
                                                (''subscribed_topics'', VStrings (SubscribedTopics resp))],
                         ExecutionTimeMs = elapsedMs\<rparr>, None), w'))))"

text \<open>
  \<^verbatim>\<open>MultiAgentServer\<close> implements the handler: the messages of its errors (the
  \<^verbatim>\<open>fmt.Errorf\<close> calls of \<^verbatim>\<open>SpawnSubAgent\<close>), and the handler it is for the session id and
  clock reading of one call.
\<close>

fun errorMessage :: "spawn_error \<Rightarrow> string" where
  "errorMessage ErrRequestNil = ''spawn request cannot be nil''"
| "errorMessage ErrParentSessionRequired = ''parent session ID is required''"
| "errorMessage ErrAgentIDRequired = ''agent ID is required''"
| "errorMessage ErrRegistryNotConfigured = ''agent registry not configured''"
| "errorMessage (ErrSpawnLimit existingSpawns maxSpawnsPerParent) =
     ''spawn limit reached: parent has '' @ showNat existingSpawns
       @ '' spawned agents (max: '' @ showNat maxSpawnsPerParent @ '')''"
| "errorMessage (ErrLoadAgent agentID err) = ''failed to load agent '' @ agentID @ '': '' @ err"
| "errorMessage (ErrCreateSession err) = ''failed to create session: '' @ err"

definition serverHandler ::
  "('ag, 'reg, 'bus, 'store) deps \<Rightarrow> string \<Rightarrow> int
     \<Rightarrow> ('ag, 'reg, 'bus, 'store) server \<Rightarrow> SpawnSubAgentRequest
     \<Rightarrow> (string + SpawnSubAgentResponse) \<times> ('ag, 'reg, 'bus, 'store) server" where
  "serverHandler D newSessionID now s req =
     (case SpawnSubAgent D newSessionID now s (Some req) of
        (result, s') \<Rightarrow> (map_sum errorMessage id result, s'))"

text \<open>
  A tool of the parent session \<^verbatim>\<open>p\<close> on the concrete server.
\<close>

definition tool0 ::
  "(string, string list, (string \<times> Subscription) list, Session list) server SpawnAgentTool" where
  "tool0 = \<lparr>tool_handler = Some (serverHandler deps0 ''s11'' 0),
            tool_parentSession = ''p'', tool_parentAgentID = ''dm''\<rparr>"

chapter \<open>Properties\<close>

section \<open>The rerank gate\<close>

subsection \<open>float64 arithmetic\<close>

lemma pow2_pos: "0 < pow2 e"
  by (simp add: pow2_def)

lemma pow2_succ: "pow2 (e + 1) = 2 * pow2 e"
proof (cases "0 \<le> e")
  case True
  then show ?thesis by (simp add: pow2_def nat_add_distrib)
next
  case False
  define n where "n = nat (- e - 1)"
  from False have e: "e = - int (Suc n)" by (simp add: n_def)
  have k: "nat (int k + 1) = Suc k" for k by simp
  have "pow2 e = 1 / 2 ^ Suc n" by (simp add: e pow2_def k)
  moreover have "pow2 (e + 1) = 1 / 2 ^ n" by (cases n) (simp_all add: e pow2_def k)
  ultimately show ?thesis by simp
qed

lemma pow2_pred: "pow2 (e - 1) = pow2 e / 2"
  using pow2_succ [of "e - 1"] by simp

lemma roundHalfEven_near: "\<bar>of_int (roundHalfEven x) - x\<bar> \<le> 1 / 2"
  unfolding roundHalfEven_def Let_def
  by (auto simp: abs_le_iff)

lemma roundHalfEven_of_int: "roundHalfEven (of_int k) = k"
  by (simp add: roundHalfEven_def)

lemma roundHalfEven_nonneg: "0 \<le> x \<Longrightarrow> 0 \<le> roundHalfEven x"
  by (auto simp: roundHalfEven_def Let_def)

lemma binadeDown_bracket:
  "0 < x \<Longrightarrow> x < 2 \<Longrightarrow> 1 / 2 ^ n \<le> x \<Longrightarrow>
     pow2 (binadeDown n x) \<le> x \<and> x < pow2 (binadeDown n x + 1)"
proof (induction n arbitrary: x)
  case 0
  then show ?case by (simp add: pow2_def)
next
  case (Suc n)
  show ?case
  proof (cases "1 \<le> x")
    case True
    with Suc.prems show ?thesis by (simp add: pow2_def)
  next
    case False
    with Suc.prems have "0 < 2 * x" "2 * x < 2" "1 / 2 ^ n \<le> 2 * x"
      by (simp_all add: field_simps)
    from Suc.IH [OF this]
    have "pow2 (binadeDown n (2 * x)) \<le> 2 * x" "2 * x < pow2 (binadeDown n (2 * x) + 1)"
      by simp_all
    then have "pow2 (binadeDown n (2 * x) - 1) \<le> x" "x < pow2 (binadeDown n (2 * x))"
      by (simp_all add: pow2_pred pow2_succ)
    with False show ?thesis by simp
  qed
qed

lemma binadeDown_subnormal:
  "0 \<le> x \<Longrightarrow> x < 1 / 2 ^ n \<Longrightarrow> binadeDown n x = - int n"
proof (induction n arbitrary: x)
  case 0
  then show ?case by simp
next
  case (Suc n)
  have "(1::real) \<le> 2 ^ Suc n" by (rule one_le_power) simp
  then have "1 / 2 ^ Suc n \<le> (1::real)" by simp
  with Suc.prems have "x < 1" by linarith
  moreover from Suc.prems have "0 \<le> 2 * x" "2 * x < 1 / 2 ^ n" by (simp_all add: field_simps)
  ultimately show ?case using Suc.IH [of "2 * x"] by simp
qed

lemma binadeUp_bracket:
  "1 \<le> x \<Longrightarrow> x < 2 * 2 ^ n \<Longrightarrow>
     pow2 (binadeUp n x) \<le> x \<and> x < pow2 (binadeUp n x + 1)"
proof (induction n arbitrary: x)
  case 0
  then show ?case by (simp add: pow2_def)
next
  case (Suc n)
  show ?case
  proof (cases "x < 2")
    case True
    with Suc.prems show ?thesis by (simp add: pow2_def)
  next
    case False
    with Suc.prems have h: "1 \<le> x / 2" "x / 2 < 2 * 2 ^ n" by simp_all
    define b where "b = binadeUp n (x / 2)"
    from Suc.IH [OF h] have "pow2 b \<le> x / 2" "x / 2 < pow2 (b + 1)"
      by (simp_all add: b_def)
    then have "2 * pow2 b \<le> x" "x < 2 * pow2 (b + 1)"
      by simp_all
    then have "pow2 (b + 1) \<le> x" "x < pow2 (b + 1 + 1)"
      by (simp_all only: pow2_succ)
    moreover from False have "binadeUp (Suc n) x = b + 1" by (simp add: b_def)
    ultimately show ?thesis by simp
  qed
qed

text \<open>
  The exponent is the one of the standard: a number of the normal range lies in the
  binade of its exponent, and a smaller one has the exponent -1022.
\<close>

lemma binade_normal:
  assumes "pow2 (- 1022) \<le> \<bar>x\<bar>" and "\<bar>x\<bar> < pow2 1024"
  shows "pow2 (binade x) \<le> \<bar>x\<bar> \<and> \<bar>x\<bar> < pow2 (binade x + 1)"
proof (cases "1 \<le> \<bar>x\<bar>")
  case True
  from assms(2) have "\<bar>x\<bar> < 2 * 2 ^ 1023" by (simp add: pow2_def)
  from binadeUp_bracket [OF True this] True show ?thesis by (simp add: binade_def)
next
  case False
  from assms(1) have p: "1 / 2 ^ 1022 \<le> \<bar>x\<bar>" by (simp add: pow2_def)
  have "(0::real) < 1 / 2 ^ 1022" by simp
  with p have "0 < \<bar>x\<bar>" by linarith
  from binadeDown_bracket [OF this _ p] False show ?thesis by (simp add: binade_def)
qed

lemma binade_subnormal:
  assumes "\<bar>x\<bar> < pow2 (- 1022)"
  shows "binade x = - 1022"
proof -
  from assms have p: "\<bar>x\<bar> < 1 / 2 ^ 1022" by (simp add: pow2_def)
  have "(1::real) \<le> 2 ^ 1022" by (rule one_le_power) simp
  then have "1 / 2 ^ 1022 \<le> (1::real)" by simp
  with p have "\<not> 1 \<le> \<bar>x\<bar>" by linarith
  with binadeDown_subnormal [OF _ p] show ?thesis by (simp add: binade_def)
qed

text \<open>
  The result is a multiple of the unit in the last place of the binade (by its
  definition), at most half a unit away from the number rounded, and a number that is
  such a multiple is left as it is.
\<close>

lemma float64_nearest: "\<bar>float64 x - x\<bar> \<le> pow2 (binade x - 53)"
proof (cases "x = 0")
  case True
  then show ?thesis using pow2_pos [of "binade 0 - 53"] by (simp add: float64_def)
next
  case False
  define u where "u = pow2 (binade x - 52)"
  have u: "0 < u" by (simp add: u_def pow2_pos)
  have "float64 x - x = (of_int (roundHalfEven (x / u)) - x / u) * u"
    using False u by (simp add: float64_def u_def field_simps)
  then have "\<bar>float64 x - x\<bar> = \<bar>of_int (roundHalfEven (x / u)) - x / u\<bar> * u"
    using u by (simp add: abs_mult)
  also have "\<dots> \<le> (1 / 2) * u"
    using roundHalfEven_near [of "x / u"] u by (intro mult_right_mono) simp_all
  also have "\<dots> = pow2 (binade x - 53)"
    using pow2_pred [of "binade x - 52"] by (simp add: u_def)
  finally show ?thesis .
qed

lemma float64_representable:
  "x = of_int k * pow2 (binade x - 52) \<Longrightarrow> float64 x = x"
proof -
  assume a: "x = of_int k * pow2 (binade x - 52)"
  have "x / pow2 (binade x - 52) = of_int k"
    using pow2_pos [of "binade x - 52"] by (subst a) simp
  then show ?thesis using a by (simp add: float64_def roundHalfEven_of_int)
qed

lemma float64_nonneg: "0 \<le> x \<Longrightarrow> 0 \<le> float64 x"
  using pow2_pos [of "binade x - 52"]
  by (auto simp: float64_def intro!: mult_nonneg_nonneg roundHalfEven_nonneg)

lemma binadeDown_numeral:
  "binadeDown (numeral k) x = (if 1 \<le> x then 0 else binadeDown (pred_numeral k) (2 * x) - 1)"
  by (simp add: numeral_eq_Suc)

lemma binadeUp_numeral:
  "binadeUp (numeral k) x = (if x < 2 then 0 else binadeUp (pred_numeral k) (x / 2) + 1)"
  by (simp add: numeral_eq_Suc)

lemmas float64_eval =
  float64_def binade_def pow2_def roundHalfEven_def Let_def binadeDown_numeral binadeUp_numeral

text \<open>
  The constants of the gate and the scores of the examples, as Go prints them with 17
  significant digits: 0.7 is 0.69999999999999996, 0.2 is 0.20000000000000001, 0.6 is
  0.59999999999999998 and 0.95 is 0.94999999999999996; and 0.95 - 0.75 is
  0.19999999999999996.
\<close>

lemma float64_decimals:
  "float64 0.95 = 8556839292003942 / 2 ^ 53"
  "float64 0.75 = 3 / 4"
  "float64 0.70 = 6305039478318694 / 2 ^ 53"
  "float64 0.65 = 5854679515581645 / 2 ^ 53"
  "float64 0.60 = 5404319552844595 / 2 ^ 53"
  "float64 0.55 = 4953959590107546 / 2 ^ 53"
  "float64 0.50 = 1 / 2"
  "float64 0.40 = 7205759403792794 / 2 ^ 54"
  "float64 0.30 = 5404319552844595 / 2 ^ 54"
  "float64 0.20 = 7205759403792794 / 2 ^ 55"
  by (simp_all add: float64_eval)

lemma float64_sub_examples:
  "float64_sub (float64 0.95) (float64 0.75) = 7205759403792792 / 2 ^ 55"
  "float64_sub (float64 0.95) (float64 0.40) = 4953959590107545 / 2 ^ 53"
  unfolding float64_decimals float64_sub_def
  by (simp_all add: float64_eval)

lemma float64_compared:
  "float64 0.70 \<le> float64 0.95"
  "float64 0.20 \<le> float64_sub (float64 0.95) (float64 0.40)"
  "float64 0.60 < float64 0.95"
  "float64 0.40 \<le> float64 0.60"
  "float64 0.30 \<le> float64 0.60"
  "float64 0.65 < float64 0.70"
  "float64_sub (float64 0.95) (float64 0.75) < float64 0.20"
  "float64 0.60 < float64 0.70"
  unfolding float64_sub_examples unfolding float64_decimals
  by simp_all

subsection \<open>The gate and the re-ranker\<close>

lemma strongCandidates_fold:
  "fold (\<lambda>s n. if c < score s then n + 1 else n) scored k
     = k + length (filter (\<lambda>s. c < score s) scored)"
  by (induction scored arbitrary: k) auto

lemma strongCandidates_filter:
  "strongCandidates scored = length (filter (\<lambda>s. float64 0.60 < score s) scored)"
  unfolding strongCandidates_def
  using strongCandidates_fold [of "float64 0.60" scored 0] by simp

lemma candidateFound_iff: "candidateFound candidates selected \<longleftrightarrow> selected \<in> name ` set candidates"
  by (induction candidates) auto

lemma clampConfidence_range: "0 \<le> clampConfidence c \<and> clampConfidence c \<le> 1"
  by (simp add: clampConfidence_def Let_def)

text \<open>
  The gate computes exactly this: a provider is there, the list is not empty, and one of
  the four triggers fires.
\<close>

lemma shouldInvoke_char:
  "shouldInvokeLLMReRanker scored intent llmProvider =
     (llmProvider \<noteq> None \<and> scored \<noteq> []
      \<and> (intent = IntentUnknown
         \<or> score (scored ! 0) < float64 0.70
         \<or> (2 \<le> length scored
             \<and> float64_sub (score (scored ! 0)) (score (scored ! 1)) < float64 0.20)
         \<or> 3 \<le> length (filter (\<lambda>s. float64 0.60 < score s) scored)))"
  unfolding shouldInvokeLLMReRanker_def strongCandidates_filter by auto

text \<open>
  C1, as stated, fails: with the intent Unknown, or with a top score below 0.70, the
  gate still answers false when the list of scored patterns is empty, and when no
  provider is configured.
\<close>

theorem C1_counterexample:
  "gateConditions [] IntentUnknown
   \<and> \<not> shouldInvokeLLMReRanker [] IntentUnknown (providerReply ''{}'')
   \<and> gateConditions ranked0 IntentUnknown
   \<and> \<not> shouldInvokeLLMReRanker ranked0 IntentUnknown None
   \<and> gateConditions ranked0 (IntentOther ''Billing'')
   \<and> \<not> shouldInvokeLLMReRanker ranked0 (IntentOther ''Billing'') None"
  using float64_compared(6)
  by (simp add: gateConditions_def shouldInvokeLLMReRanker_def ranked0_def scoredAs_def)

text \<open>
  C1, amended. The gate answers false whenever the provider is nil or the list is empty.
  Otherwise it answers true exactly when the intent is Unknown, or the top score is below
  the \<^verbatim>\<open>float64\<close> constant 0.70, or there are two candidates and the \<^verbatim>\<open>float64\<close>
  difference of the first score and the second is below the \<^verbatim>\<open>float64\<close> constant 0.20,
  or three or more candidates score above the \<^verbatim>\<open>float64\<close> constant 0.60. For a list
  ranked best first (the second score does not exceed the first) that is: exactly when
  one of the four gate conditions of the specification holds, computed in \<^verbatim>\<open>float64\<close>.
\<close>

theorem C1_gate:
  "(llmProvider = None \<or> scored = [] \<longrightarrow> \<not> shouldInvokeLLMReRanker scored intent llmProvider)
   \<and> (llmProvider \<noteq> None \<and> scored \<noteq> [] \<longrightarrow>
        shouldInvokeLLMReRanker scored intent llmProvider =
          (intent = IntentUnknown
           \<or> score (scored ! 0) < float64 0.70
           \<or> (2 \<le> length scored
               \<and> float64_sub (score (scored ! 0)) (score (scored ! 1)) < float64 0.20)
           \<or> 3 \<le> length (filter (\<lambda>s. float64 0.60 < score s) scored)))
   \<and> (llmProvider \<noteq> None \<and> scored \<noteq> []
        \<and> (2 \<le> length scored \<longrightarrow> score (scored ! 1) \<le> score (scored ! 0)) \<longrightarrow>
        shouldInvokeLLMReRanker scored intent llmProvider = gateConditions scored intent)"
proof (intro conjI impI)
  assume "llmProvider = None \<or> scored = []"
  then show "\<not> shouldInvokeLLMReRanker scored intent llmProvider"
    by (auto simp: shouldInvokeLLMReRanker_def)
next
  assume "llmProvider \<noteq> None \<and> scored \<noteq> []"
  then show "shouldInvokeLLMReRanker scored intent llmProvider =
          (intent = IntentUnknown
           \<or> score (scored ! 0) < float64 0.70
           \<or> (2 \<le> length scored
               \<and> float64_sub (score (scored ! 0)) (score (scored ! 1)) < float64 0.20)
           \<or> 3 \<le> length (filter (\<lambda>s. float64 0.60 < score s) scored))"
    by (simp only: shouldInvoke_char) simp
next
  assume a: "llmProvider \<noteq> None \<and> scored \<noteq> []
        \<and> (2 \<le> length scored \<longrightarrow> score (scored ! 1) \<le> score (scored ! 0))"
  have "2 \<le> length scored \<Longrightarrow>
      \<bar>float64_sub (score (scored ! 0)) (score (scored ! 1))\<bar>
        = float64_sub (score (scored ! 0)) (score (scored ! 1))"
    using a float64_nonneg [of "score (scored ! 0) - score (scored ! 1)"]
    by (simp add: float64_sub_def)
  with a show "shouldInvokeLLMReRanker scored intent llmProvider = gateConditions scored intent"
    unfolding shouldInvoke_char gateConditions_def by auto
qed

text \<open>
  The two scenarios of the specification: scores 0.95, 0.40, 0.30 with a known intent
  take the fast path; scores 0.65, 0.55, 0.50 invoke the re-ranker. And at the
  thresholds: scores 0.95 and 0.75 invoke the re-ranker, their \<^verbatim>\<open>float64\<close> difference
  being 0.19999999999999996; a single candidate scored 0.70, the constant itself, takes
  the fast path.
\<close>

theorem C1_gate_witness:
  "\<not> shouldInvokeLLMReRanker [scoredAs ''a'' 0.95, scoredAs ''b'' 0.40, scoredAs ''c'' 0.30]
       (IntentOther ''Billing'') (providerReply ''{}'')
   \<and> shouldInvokeLLMReRanker ranked0 (IntentOther ''Billing'') (providerReply ''{}'')
   \<and> gateConditions ranked0 (IntentOther ''Billing'')
   \<and> shouldInvokeLLMReRanker [scoredAs ''a'' 0.95, scoredAs ''b'' 0.75]
       (IntentOther ''Billing'') (providerReply ''{}'')
   \<and> \<not> shouldInvokeLLMReRanker [scoredAs ''a'' 0.70]
       (IntentOther ''Billing'') (providerReply ''{}'')
   \<and> \<not> shouldInvokeLLMReRanker [] IntentUnknown (providerReply ''{}'')"
  using C1_gate [of "providerReply ''{}''"
      "[scoredAs ''a'' 0.95, scoredAs ''b'' 0.40, scoredAs ''c'' 0.30]" "IntentOther ''Billing''"]
    C1_gate [of "providerReply ''{}''" ranked0 "IntentOther ''Billing''"]
    C1_gate [of "providerReply ''{}''"
      "[scoredAs ''a'' 0.95, scoredAs ''b'' 0.75]" "IntentOther ''Billing''"]
    C1_gate [of "providerReply ''{}''" "[scoredAs ''a'' 0.70]" "IntentOther ''Billing''"]
    C1_gate [of "providerReply ''{}''" "[]" IntentUnknown]
    float64_compared
  by (simp add: gateConditions_def providerReply_def scoredAs_def ranked0_def)

section \<open>The re-ranker's result\<close>

lemma reRank_parsed:
  assumes "candidates \<noteq> []"
    and "llmProvider = Some chat"
    and "chat (buildPrompt L userMessage candidates summaries) = Inr content"
    and "Unmarshal L (TrimSpace L (extractJSON content)) = Inr result"
  shows "reRankPatternsWithLLM L llmProvider userMessage candidates summaries =
           (if SelectedPattern result \<in> name ` set candidates
            then (SelectedPattern result, clampConfidence (Confidence result), None)
            else (name (candidates ! 0), score (candidates ! 0),
                  Some (ErrNotInCandidates (SelectedPattern result))))"
  using assms by (simp add: reRankPatternsWithLLM_def Let_def candidateFound_iff)

text \<open>
  C3. When the provider answers and the answer decodes, the pattern name returned is one
  of the candidates: the selected pattern itself when it is offered, and otherwise the
  first candidate with its keyword score, together with a non-nil error that carries the
  rejected name.
\<close>

theorem C3_selected_in_candidates:
  assumes "candidates \<noteq> []"
    and "llmProvider = Some chat"
    and "chat (buildPrompt L userMessage candidates summaries) = Inr content"
    and "Unmarshal L (TrimSpace L (extractJSON content)) = Inr result"
  shows "fst (reRankPatternsWithLLM L llmProvider userMessage candidates summaries)
           \<in> name ` set candidates
         \<and> (SelectedPattern result \<notin> name ` set candidates \<longrightarrow>
              reRankPatternsWithLLM L llmProvider userMessage candidates summaries =
                (name (hd candidates), score (hd candidates),
                 Some (ErrNotInCandidates (SelectedPattern result))))
         \<and> (SelectedPattern result \<in> name ` set candidates \<longrightarrow>
              fst (reRankPatternsWithLLM L llmProvider userMessage candidates summaries)
                = SelectedPattern result
              \<and> snd (snd (reRankPatternsWithLLM L llmProvider userMessage candidates summaries))
                = None)"
proof -
  from assms(1) have first: "candidates ! 0 = hd candidates" "hd candidates \<in> set candidates"
    by (simp_all add: hd_conv_nth)
  show ?thesis
    unfolding reRank_parsed [OF assms] using first by auto
qed

theorem C3_selected_in_candidates_witness:
  "reRankPatternsWithLLM lib0 (providerReply (fenceJson @ ''B'' @ fence)) ''load data'' cands0 Map.empty
     = (''etl'', 0.65, Some (ErrNotInCandidates ''nosuch''))
   \<and> ''etl'' \<in> name ` set cands0"
proof -
  have ex: "extractJSON (fenceJson @ ''B'' @ fence) = ''B''"
    by (simp add: extractJSON_def strContains_def strIndex_def fenceJson_def fence_def)
  have un: "Unmarshal lib0 (TrimSpace lib0 (extractJSON (fenceJson @ ''B'' @ fence)))
              = Inr \<lparr>SelectedPattern = ''nosuch'', Confidence = 1/2, Reasoning = []\<rparr>"
    unfolding ex by (simp add: lib0_def)
  have ne: "cands0 \<noteq> []" by (simp add: cands0_def)
  show ?thesis
    unfolding providerReply_def
    using C3_selected_in_candidates [OF ne refl refl un, of "''load data''" Map.empty]
    by (simp add: cands0_def)
qed

text \<open>
  C8. When the provider answers, the answer decodes and it names an offered candidate,
  the confidence returned lies between 0 and 1: a decoded value below 0 comes back as 0,
  one above 1 as 1, and one in between unchanged.
\<close>

theorem C8_confidence_clamped:
  assumes "candidates \<noteq> []"
    and "llmProvider = Some chat"
    and "chat (buildPrompt L userMessage candidates summaries) = Inr content"
    and "Unmarshal L (TrimSpace L (extractJSON content)) = Inr result"
    and "SelectedPattern result \<in> name ` set candidates"
    and "conf = fst (snd (reRankPatternsWithLLM L llmProvider userMessage candidates summaries))"
  shows "0 \<le> conf \<and> conf \<le> 1
         \<and> (Confidence result < 0 \<longrightarrow> conf = 0)
         \<and> (1 < Confidence result \<longrightarrow> conf = 1)
         \<and> (0 \<le> Confidence result \<and> Confidence result \<le> 1 \<longrightarrow> conf = Confidence result)"
proof -
  have "conf = clampConfidence (Confidence result)"
    unfolding assms(6) reRank_parsed [OF assms(1-4)] using assms(5) by simp
  then show ?thesis
    by (auto simp: clampConfidence_def Let_def)
qed

theorem C8_confidence_clamped_witness:
  "fst (snd (reRankPatternsWithLLM lib0 (providerReply (fence @ ''A'' @ fence)) ''run a query''
              cands0 Map.empty)) = 1"
proof -
  have ex: "extractJSON (fence @ ''A'' @ fence) = ''A''"
    by (simp add: extractJSON_def strContains_def strIndex_def fenceJson_def fence_def)
  have un: "Unmarshal lib0 (TrimSpace lib0 (extractJSON (fence @ ''A'' @ fence)))
              = Inr \<lparr>SelectedPattern = ''sql'', Confidence = 3/2, Reasoning = []\<rparr>"
    unfolding ex by (simp add: lib0_def)
  have ne: "cands0 \<noteq> []" by (simp add: cands0_def)
  have sel: "SelectedPattern \<lparr>SelectedPattern = ''sql'', Confidence = 3/2, Reasoning = []\<rparr>
               \<in> name ` set cands0"
    by (simp add: cands0_def)
  show ?thesis
    unfolding providerReply_def
    using C8_confidence_clamped [OF ne refl refl un sel refl, of "''run a query''" Map.empty]
    by simp
qed

section \<open>The data directory\<close>

lemma splitSlash_nonempty: "splitSlash p \<noteq> []"
  by (induction p) (auto split: list.splits)

lemma splitSlash_append: "splitSlash (a @ CHR ''/'' # b) = splitSlash a @ splitSlash b"
  by (induction a) (auto split: list.splits simp: splitSlash_nonempty)

lemma join_splitSlash: "joinStrings (splitSlash p) ''/'' = p"
proof (induction p)
  case Nil
  then show ?case by simp
next
  case (Cons c cs)
  show ?case
  proof (cases "c = CHR ''/''")
    case True
    then show ?thesis using Cons splitSlash_nonempty [of cs]
      by (cases "splitSlash cs") auto
  next
    case False
    then show ?thesis using Cons splitSlash_nonempty [of cs]
      by (cases "splitSlash cs"; cases "tl (splitSlash cs)") auto
  qed
qed

lemma foldl_cleanStep_plain:
  "list_all plain es \<Longrightarrow> foldl (cleanStep rooted) acc es = acc @ es"
  by (induction es arbitrary: acc) (auto simp: cleanStep_def plain_def)

lemma Clean_isCleanAbs: "isCleanAbs p \<Longrightarrow> filepath_Clean p = p"
proof -
  assume a: "isCleanAbs p"
  then obtain r where p: "p = CHR ''/'' # r" and r: "plainPath r"
    by (auto simp: isCleanAbs_def split: list.splits)
  have "foldl (cleanStep True) [] (splitSlash p) = splitSlash r"
    using r by (simp add: p plainPath_def cleanStep_def foldl_cleanStep_plain)
  then show ?thesis
    by (simp add: filepath_Clean_def filepath_IsAbs_def p join_splitSlash)
qed

lemma plainPath_append: "plainPath a \<Longrightarrow> plainPath b \<Longrightarrow> plainPath (a @ CHR ''/'' # b)"
  by (simp add: plainPath_def splitSlash_append)

lemma isCleanAbs_append: "isCleanAbs h \<Longrightarrow> plainPath r \<Longrightarrow> isCleanAbs (h @ CHR ''/'' # r)"
  by (auto simp: isCleanAbs_def plainPath_append split: list.splits)

lemma Join_isCleanAbs:
  "isCleanAbs h \<Longrightarrow> plainPath r \<Longrightarrow> filepath_Join [h, r] = h @ CHR ''/'' # r"
  using Clean_isCleanAbs [OF isCleanAbs_append, of h r]
  by (auto simp: isCleanAbs_def)

lemma IsAbs_Clean: "filepath_IsAbs p \<Longrightarrow> filepath_IsAbs (filepath_Clean p)"
  by (auto simp: filepath_Clean_def filepath_IsAbs_def Let_def)

lemma IsAbs_Join: "filepath_IsAbs h \<Longrightarrow> filepath_IsAbs (filepath_Join [h, r])"
  by (auto simp: filepath_IsAbs_def intro!: IsAbs_Clean [unfolded filepath_IsAbs_def] elim!: prefixE)

lemma plainPath_not_abs: "plainPath v \<Longrightarrow> v \<noteq> [] \<and> \<not> filepath_IsAbs v"
  by (cases v) (auto simp: plainPath_def plain_def filepath_IsAbs_def)

lemma isCleanAbs_IsAbs: "isCleanAbs v \<Longrightarrow> filepath_IsAbs v \<and> v \<noteq> [] \<and> \<not> prefix ''~/'' v"
  by (cases v) (auto simp: isCleanAbs_def filepath_IsAbs_def)

text \<open>
  What the function returns, case by case. Write \<open>v\<close> for the value of
  \<^verbatim>\<open>LOOM_DATA_DIR\<close>.
  \<^item> \<open>v\<close> starts with \<^verbatim>\<open>~/\<close> and the home directory \<open>h\<close> is known: the result is \<open>h\<close>
    joined with the rest of \<open>v\<close>, cleaned; it is absolute when \<open>h\<close> is, and it is
    \<open>h\<close>, a slash and the rest when both are clean already.
  \<^item> \<open>v\<close> is absolute: the result is \<open>v\<close> cleaned, which is \<open>v\<close> itself when \<open>v\<close>
    is clean.
  \<^item> \<open>v\<close> is not empty, is relative and does not start with \<^verbatim>\<open>~/\<close>, and the working
    directory \<open>d\<close> is known: the result is \<open>d\<close> joined with \<open>v\<close>, cleaned; it is
    absolute when \<open>d\<close> is, and it is \<open>d\<close>, a slash and \<open>v\<close> when both are clean.
  \<^item> \<open>v\<close> is empty (or the variable is not set) and the home directory \<open>h\<close> is known:
    the result is \<open>h\<close> joined with \<^verbatim>\<open>.loom\<close>.
  \<^item> When the directory needed is not known, the result is \<open>v\<close> unchanged, and
    \<^verbatim>\<open>.loom\<close> for the empty \<open>v\<close>.
\<close>

lemma GetLoomDataDir_cases:
  assumes "v = Getenv env ''LOOM_DATA_DIR''"
  shows
    "(prefix ''~/'' v \<and> UserHomeDir env = Some h \<longrightarrow>
        GetLoomDataDir env = filepath_Join [h, drop 2 v]
        \<and> (filepath_IsAbs h \<longrightarrow> filepath_IsAbs (GetLoomDataDir env))
        \<and> (isCleanAbs h \<and> plainPath (drop 2 v) \<longrightarrow> GetLoomDataDir env = h @ ''/'' @ drop 2 v))
     \<and> (filepath_IsAbs v \<longrightarrow>
        GetLoomDataDir env = filepath_Clean v
        \<and> filepath_IsAbs (GetLoomDataDir env)
        \<and> (isCleanAbs v \<longrightarrow> GetLoomDataDir env = v))
     \<and> (v \<noteq> [] \<and> \<not> prefix ''~/'' v \<and> \<not> filepath_IsAbs v \<and> Getwd env = Some d \<longrightarrow>
        GetLoomDataDir env = filepath_Join [d, v]
        \<and> (filepath_IsAbs d \<longrightarrow> filepath_IsAbs (GetLoomDataDir env))
        \<and> (isCleanAbs d \<and> plainPath v \<longrightarrow> GetLoomDataDir env = d @ ''/'' @ v))
     \<and> (v = [] \<and> UserHomeDir env = Some h \<longrightarrow>
        GetLoomDataDir env = filepath_Join [h, ''.loom'']
        \<and> (filepath_IsAbs h \<longrightarrow> filepath_IsAbs (GetLoomDataDir env))
        \<and> (isCleanAbs h \<longrightarrow> GetLoomDataDir env = h @ ''/.loom''))
     \<and> (prefix ''~/'' v \<and> UserHomeDir env = None \<longrightarrow> GetLoomDataDir env = v)
     \<and> (v \<noteq> [] \<and> \<not> prefix ''~/'' v \<and> \<not> filepath_IsAbs v \<and> Getwd env = None \<longrightarrow>
        GetLoomDataDir env = v)
     \<and> (v = [] \<and> UserHomeDir env = None \<longrightarrow> GetLoomDataDir env = ''.loom'')"
proof -
  have tilde: "prefix ''~/'' v \<Longrightarrow> v \<noteq> [] \<and> prefix ''~'' v"
    by (auto elim!: prefixE)
  have absv: "filepath_IsAbs v \<Longrightarrow> v \<noteq> [] \<and> \<not> prefix ''~/'' v"
    by (auto simp: filepath_IsAbs_def elim!: prefixE)
  have loom: "plainPath ''.loom''"
    by (simp add: plainPath_def plain_def)
  have c1: "prefix ''~/'' v \<and> UserHomeDir env = Some h \<longrightarrow>
        GetLoomDataDir env = filepath_Join [h, drop 2 v]
        \<and> (filepath_IsAbs h \<longrightarrow> filepath_IsAbs (GetLoomDataDir env))
        \<and> (isCleanAbs h \<and> plainPath (drop 2 v) \<longrightarrow> GetLoomDataDir env = h @ ''/'' @ drop 2 v)"
  proof (intro impI)
    assume a: "prefix ''~/'' v \<and> UserHomeDir env = Some h"
    with tilde have r: "GetLoomDataDir env = filepath_Join [h, drop 2 v]"
      unfolding GetLoomDataDir_def expandPath_def assms [symmetric] Let_def by simp
    show "GetLoomDataDir env = filepath_Join [h, drop 2 v]
        \<and> (filepath_IsAbs h \<longrightarrow> filepath_IsAbs (GetLoomDataDir env))
        \<and> (isCleanAbs h \<and> plainPath (drop 2 v) \<longrightarrow> GetLoomDataDir env = h @ ''/'' @ drop 2 v)"
      unfolding r using IsAbs_Join [of h "drop 2 v"] Join_isCleanAbs [of h "drop 2 v"] by simp
  qed
  have c2: "filepath_IsAbs v \<longrightarrow>
        GetLoomDataDir env = filepath_Clean v
        \<and> filepath_IsAbs (GetLoomDataDir env)
        \<and> (isCleanAbs v \<longrightarrow> GetLoomDataDir env = v)"
  proof (intro impI)
    assume a: "filepath_IsAbs v"
    with absv have r: "GetLoomDataDir env = filepath_Clean v"
      unfolding GetLoomDataDir_def expandPath_def filepath_Abs_def assms [symmetric] Let_def by simp
    show "GetLoomDataDir env = filepath_Clean v
        \<and> filepath_IsAbs (GetLoomDataDir env)
        \<and> (isCleanAbs v \<longrightarrow> GetLoomDataDir env = v)"
      unfolding r using IsAbs_Clean [OF a] Clean_isCleanAbs [of v] by simp
  qed
  have c3: "v \<noteq> [] \<and> \<not> prefix ''~/'' v \<and> \<not> filepath_IsAbs v \<and> Getwd env = Some d \<longrightarrow>
        GetLoomDataDir env = filepath_Join [d, v]
        \<and> (filepath_IsAbs d \<longrightarrow> filepath_IsAbs (GetLoomDataDir env))
        \<and> (isCleanAbs d \<and> plainPath v \<longrightarrow> GetLoomDataDir env = d @ ''/'' @ v)"
  proof (intro impI)
    assume a: "v \<noteq> [] \<and> \<not> prefix ''~/'' v \<and> \<not> filepath_IsAbs v \<and> Getwd env = Some d"
    then have r: "GetLoomDataDir env = filepath_Join [d, v]"
      unfolding GetLoomDataDir_def expandPath_def filepath_Abs_def assms [symmetric] Let_def by simp
    show "GetLoomDataDir env = filepath_Join [d, v]
        \<and> (filepath_IsAbs d \<longrightarrow> filepath_IsAbs (GetLoomDataDir env))
        \<and> (isCleanAbs d \<and> plainPath v \<longrightarrow> GetLoomDataDir env = d @ ''/'' @ v)"
      unfolding r using IsAbs_Join [of d v] Join_isCleanAbs [of d v] by simp
  qed
  have c4: "v = [] \<and> UserHomeDir env = Some h \<longrightarrow>
        GetLoomDataDir env = filepath_Join [h, ''.loom'']
        \<and> (filepath_IsAbs h \<longrightarrow> filepath_IsAbs (GetLoomDataDir env))
        \<and> (isCleanAbs h \<longrightarrow> GetLoomDataDir env = h @ ''/.loom'')"
  proof (intro impI)
    assume a: "v = [] \<and> UserHomeDir env = Some h"
    then have r: "GetLoomDataDir env = filepath_Join [h, ''.loom'']"
      unfolding GetLoomDataDir_def assms [symmetric] Let_def by simp
    show "GetLoomDataDir env = filepath_Join [h, ''.loom'']
        \<and> (filepath_IsAbs h \<longrightarrow> filepath_IsAbs (GetLoomDataDir env))
        \<and> (isCleanAbs h \<longrightarrow> GetLoomDataDir env = h @ ''/.loom'')"
      unfolding r using IsAbs_Join [of h "''.loom''"] Join_isCleanAbs [OF _ loom, of h] by simp
  qed
  have c5: "prefix ''~/'' v \<and> UserHomeDir env = None \<longrightarrow> GetLoomDataDir env = v"
    using tilde unfolding GetLoomDataDir_def expandPath_def assms [symmetric] Let_def by simp
  have c6: "v \<noteq> [] \<and> \<not> prefix ''~/'' v \<and> \<not> filepath_IsAbs v \<and> Getwd env = None \<longrightarrow>
        GetLoomDataDir env = v"
    unfolding GetLoomDataDir_def expandPath_def filepath_Abs_def assms [symmetric] Let_def by simp
  have c7: "v = [] \<and> UserHomeDir env = None \<longrightarrow> GetLoomDataDir env = ''.loom''"
    unfolding GetLoomDataDir_def assms [symmetric] Let_def by simp
  from c1 c2 c3 c4 c5 c6 c7 show ?thesis by blast
qed

text \<open>The examples of the function's documentation.\<close>

lemma GetLoomDataDir_examples:
  "GetLoomDataDir (envOf ''~/my-loom'' (Some ''/home/user'') (Some ''/current/dir''))
     = ''/home/user/my-loom''
   \<and> GetLoomDataDir (envOf ''/custom/loom'' (Some ''/home/user'') (Some ''/current/dir''))
     = ''/custom/loom''
   \<and> GetLoomDataDir (envOf ''relative/path'' (Some ''/home/user'') (Some ''/current/dir''))
     = ''/current/dir/relative/path''
   \<and> GetLoomDataDir (envOf [] (Some ''/home/user'') (Some ''/current/dir''))
     = ''/home/user/.loom''"
proof -
  have g: "\<And>x h d. Getenv (envOf x h d) ''LOOM_DATA_DIR'' = x"
          "\<And>x h d. UserHomeDir (envOf x h d) = h"
          "\<And>x h d. Getwd (envOf x h d) = d"
    by (simp_all add: envOf_def)
  have p: "isCleanAbs ''/home/user''" "isCleanAbs ''/current/dir''" "isCleanAbs ''/custom/loom''"
          "plainPath ''my-loom''" "plainPath ''relative/path''"
          "isCleanAbs ''/home/user/my-loom''" "isCleanAbs ''/current/dir/relative/path''"
          "isCleanAbs ''/home/user/.loom''"
    by (simp_all add: isCleanAbs_def plainPath_def plain_def)
  have q: "filepath_IsAbs ''/custom/loom''" "\<not> filepath_IsAbs ''relative/path''"
    by (simp_all add: filepath_IsAbs_def)
  show ?thesis
    using
      GetLoomDataDir_cases [of "''~/my-loom''" "envOf ''~/my-loom'' (Some ''/home/user'') (Some ''/current/dir'')"
                      "''/home/user''" "''/current/dir''"]
      GetLoomDataDir_cases [of "''/custom/loom''" "envOf ''/custom/loom'' (Some ''/home/user'') (Some ''/current/dir'')"
                      "''/home/user''" "''/current/dir''"]
      GetLoomDataDir_cases [of "''relative/path''" "envOf ''relative/path'' (Some ''/home/user'') (Some ''/current/dir'')"
                      "''/home/user''" "''/current/dir''"]
      GetLoomDataDir_cases [of "[]" "envOf [] (Some ''/home/user'') (Some ''/current/dir'')"
                      "''/home/user''" "''/current/dir''"]
    by (simp add: g p q filepath_IsAbs_def Clean_isCleanAbs)
qed

text \<open>
  C7: \<^verbatim>\<open>GetLoomDataDir\<close> returns the value of \<^verbatim>\<open>LOOM_DATA_DIR\<close> when it is set and
  not empty, with a leading tilde expanded to the home directory and a relative path
  made absolute, and the home directory joined with \<^verbatim>\<open>.loom\<close> otherwise. The function's
  documentation promises the same, in the words "The returned path is always absolute.
  Tilde (~) in LOOM_DATA_DIR is expanded to the user's home directory", and the code
  departs from both. With \<^verbatim>\<open>LOOM_DATA_DIR\<close> set to the bare tilde \<^verbatim>\<open>~\<close>, the home directory
  \<^verbatim>\<open>/home/user\<close> and the working directory \<^verbatim>\<open>/current/dir\<close>, it returns
  \<^verbatim>\<open>/current/dir/~\<close>: \<^verbatim>\<open>expandPath\<close> expands the prefix \<^verbatim>\<open>~/\<close> only and takes any other
  value for a relative path. And when the home directory cannot be determined, the
  value \<^verbatim>\<open>~/loom\<close> comes back as it is and the unset variable gives \<^verbatim>\<open>.loom\<close>, neither
  of them absolute.
\<close>

theorem C7_tilde_not_expanded:
  "Getenv (envOf ''~'' (Some ''/home/user'') (Some ''/current/dir'')) ''LOOM_DATA_DIR'' = ''~''
   \<and> UserHomeDir (envOf ''~'' (Some ''/home/user'') (Some ''/current/dir'')) = Some ''/home/user''
   \<and> GetLoomDataDir (envOf ''~'' (Some ''/home/user'') (Some ''/current/dir''))
       = ''/current/dir/~''
   \<and> GetLoomDataDir (envOf ''~'' (Some ''/home/user'') (Some ''/current/dir''))
       \<noteq> ''/home/user''
   \<and> GetLoomDataDir (envOf ''~/loom'' None (Some ''/work'')) = ''~/loom''
   \<and> \<not> filepath_IsAbs (GetLoomDataDir (envOf ''~/loom'' None (Some ''/work'')))
   \<and> GetLoomDataDir (envOf [] None (Some ''/work'')) = ''.loom''
   \<and> \<not> filepath_IsAbs (GetLoomDataDir (envOf [] None (Some ''/work'')))"
proof -
  have p: "isCleanAbs ''/current/dir/~''"
    by (simp add: isCleanAbs_def plainPath_def plain_def)
  have "GetLoomDataDir (envOf ''~'' (Some ''/home/user'') (Some ''/current/dir''))
          = ''/current/dir/~''"
    by (simp add: envOf_def GetLoomDataDir_def expandPath_def filepath_Abs_def
          filepath_IsAbs_def Clean_isCleanAbs p)
  then show ?thesis
    by (simp add: envOf_def GetLoomDataDir_def expandPath_def filepath_IsAbs_def)
qed

section \<open>The spawn manager\<close>

lemma count_fold:
  "fold (\<lambda>(sessionID, spawned) count.
             if parentSessionID spawned = parent then count + 1 else count) xs k
        = k + length (filter (\<lambda>(sessionID, spawned). parentSessionID spawned = parent) xs)"
  by (induction xs arbitrary: k) (auto split: prod.splits)

lemma count_filter:
  "countSpawnedAgentsByParent s parent =
     length (filter (\<lambda>(sessionID, spawned). parentSessionID spawned = parent) (spawnedAgents s))"
  by (simp add: countSpawnedAgentsByParent_def count_fold)

lemma logmsg_frame [simp]:
  "registry (logmsg l m f s) = registry s"
  "logger (logmsg l m f s) = logger s"
  "messageBus (logmsg l m f s) = messageBus s"
  "sessionStore (logmsg l m f s) = sessionStore s"
  "spawnedAgents (logmsg l m f s) = spawnedAgents s"
  "canceled (logmsg l m f s) = canceled s"
  "nextContext (logmsg l m f s) = nextContext s"
  "monitors (logmsg l m f s) = monitors s"
  by (simp_all add: logmsg_def)

lemma autoSubscribeLoop_frame:
  "autoSubscribeLoop D a topics bus s acc = (bus', s', topics') \<Longrightarrow>
     spawnedAgents s' = spawnedAgents s"
proof (induction D a topics bus s acc rule: autoSubscribeLoop.induct)
  case (1 D subAgent bus s subscribedTopics)
  then show ?case by simp
next
  case (2 D subAgent topic rest bus s subscribedTopics)
  obtain r b where sub: "Subscribe D bus subAgent topic = (r, b)"
    by (cases "Subscribe D bus subAgent topic")
  show ?case
  proof (cases r)
    case (Inl err)
    with 2 sub show ?thesis by simp
  next
    case (Inr subscription)
    with 2 sub show ?thesis by simp
  qed
qed

lemma autoSubscribeAll_frame:
  "autoSubscribeAll D a req s = (s', ts) \<Longrightarrow> spawnedAgents s' = spawnedAgents s"
  unfolding autoSubscribeAll_def
  by (auto split: option.splits if_splits prod.splits dest: autoSubscribeLoop_frame)

lemma trackSpawnedAgent_fst:
  "fst (trackSpawnedAgent req a sid ag now ts s3) =
       \<lparr>SubAgentID = a, SessionID = sid, Status = ''spawned'', SubscribedTopics = ts\<rparr>"
  by (simp add: trackSpawnedAgent_def Let_def)

lemma trackSpawnedAgent_table:
  "\<exists>sa. parentSessionID sa = ParentSessionID req
     \<and> spawnedAgents (snd (trackSpawnedAgent req a sid ag now ts s3))
         = AList.update sid sa (spawnedAgents s3)"
  unfolding trackSpawnedAgent_def Let_def
  apply (cases "InitialMessage req = []")
   apply (simp_all add: AList.update_last)
   apply (rule exI, rule conjI, rule_tac [2] refl, simp)
  apply (rule exI, rule conjI, rule_tac [2] refl, simp)
  done

lemma trackSpawnedAgent_result:
  "\<exists>sa s8. trackSpawnedAgent req a sid ag now ts s3 =
       (\<lparr>SubAgentID = a, SessionID = sid, Status = ''spawned'', SubscribedTopics = ts\<rparr>, s8)
     \<and> parentSessionID sa = ParentSessionID req
     \<and> spawnedAgents s8 = AList.update sid sa (spawnedAgents s3)"
  using trackSpawnedAgent_fst [of req a sid ag now ts s3]
        trackSpawnedAgent_table [of req a sid ag now ts s3]
  by (cases "trackSpawnedAgent req a sid ag now ts s3") auto

lemma SpawnSubAgent_cases:
  "(\<exists>e. fst (SpawnSubAgent D sid now s r) = Inl e
        \<and> spawnedAgents (snd (SpawnSubAgent D sid now s r)) = spawnedAgents s)
   \<or> (\<exists>req sa a ts. r = Some req
        \<and> fst (SpawnSubAgent D sid now s r)
            = Inr \<lparr>SubAgentID = a, SessionID = sid, Status = ''spawned'', SubscribedTopics = ts\<rparr>
        \<and> countSpawnedAgentsByParent s (ParentSessionID req) < 10
        \<and> parentSessionID sa = ParentSessionID req
        \<and> spawnedAgents (snd (SpawnSubAgent D sid now s r)) = AList.update sid sa (spawnedAgents s))"
proof (cases r)
  case None
  then show ?thesis by (simp add: SpawnSubAgent_def)
next
  case (Some req)
  show ?thesis
  proof (cases "ParentSessionID req = [] \<or> AgentID req = [] \<or> registry s = None")
    case True
    then show ?thesis using Some by (auto simp: SpawnSubAgent_def)
  next
    case False
    then obtain reg where v: "ParentSessionID req \<noteq> []" "AgentID req \<noteq> []" "registry s = Some reg"
      by auto
    define s1 where "s1 = logmsg ''info'' ''Spawning sub-agent''
                 [(''parent_session'', ParentSessionID req), (''parent_agent'', ParentAgentID req),
                  (''agent_id'', AgentID req), (''workflow_id'', WorkflowID req)] s"
    have cnt: "countSpawnedAgentsByParent s1 (ParentSessionID req)
                 = countSpawnedAgentsByParent s (ParentSessionID req)"
      by (simp add: count_filter s1_def)
    have tab1: "spawnedAgents s1 = spawnedAgents s" by (simp add: s1_def)
    show ?thesis
    proof (cases "10 \<le> countSpawnedAgentsByParent s (ParentSessionID req)")
      case True
      then show ?thesis using Some v cnt tab1
        by (simp add: SpawnSubAgent_def Let_def s1_def [symmetric])
    next
      case lim: False
      define a where "a = (if WorkflowID req \<noteq> [] then WorkflowID req @ '':'' @ AgentID req
                      else AgentID req)"
      show ?thesis
      proof (cases "getOrLoadAgent D reg (AgentID req)")
        case (Inl err)
        then show ?thesis using Some v cnt tab1 lim
          by (simp add: SpawnSubAgent_def Let_def s1_def [symmetric])
      next
        case (Inr ag)
        define session where "session = \<lparr>sess_ID = sid, sess_AgentID = AgentID req,
                     sess_ParentSessionID = ParentSessionID req,
                     sess_CreatedAt = now, sess_UpdatedAt = now\<rparr>"
        obtain eo store' where sv: "SaveSession D (sessionStore s1) session = (eo, store')"
          by (cases "SaveSession D (sessionStore s1) session")
        show ?thesis
        proof (cases eo)
          case (Some err)
          then show ?thesis using \<open>r = Some req\<close> v cnt tab1 lim Inr sv
            by (simp add: SpawnSubAgent_def Let_def s1_def [symmetric] session_def [symmetric])
        next
          case None
          define s2 where "s2 = logmsg ''info'' ''Created sub-agent session''
                 [(''session_id'', sid), (''sub_agent_id'', a)]
                 (s1\<lparr>sessionStore := store'\<rparr>)"
          obtain s3 ts where au: "autoSubscribeAll D a req s2 = (s3, ts)"
            by (cases "autoSubscribeAll D a req s2")
          from trackSpawnedAgent_result [of req a sid ag now ts s3]
          obtain sa s8 where tr: "trackSpawnedAgent req a sid ag now ts s3 =
              (\<lparr>SubAgentID = a, SessionID = sid, Status = ''spawned'', SubscribedTopics = ts\<rparr>, s8)"
            and sa: "parentSessionID sa = ParentSessionID req"
            and tab8: "spawnedAgents s8 = AList.update sid sa (spawnedAgents s3)"
            by blast
          have tab3: "spawnedAgents s3 = spawnedAgents s"
            using autoSubscribeAll_frame [OF au] tab1 by (simp add: s2_def)
          have "SpawnSubAgent D sid now s r =
                  (Inr \<lparr>SubAgentID = a, SessionID = sid, Status = ''spawned'', SubscribedTopics = ts\<rparr>, s8)"
            using \<open>r = Some req\<close> v cnt lim Inr sv None au tr
            by (simp add: SpawnSubAgent_def Let_def s1_def [symmetric] session_def [symmetric]
                  a_def [symmetric] s2_def [symmetric])
          then show ?thesis using \<open>r = Some req\<close> lim sa tab8 tab3
            by auto
        qed
      qed
    qed
  qed
qed

lemma update_count:
  "length (filter Q (AList.update k v al)) \<le> length (filter Q al) + (if Q (k, v) then 1 else 0)"
  by (induction al) auto

lemma delete_count: "length (filter Q (AList.delete k al)) \<le> length (filter Q al)"
  by (induction al) auto

lemma unsubscribeTopic_frame:
  "unsubscribeTopic D a topic subs bus s = (bus', s') \<Longrightarrow> spawnedAgents s' = spawnedAgents s"
  by (induction D a topic subs bus s rule: unsubscribeTopic.induct) (auto split: if_splits)

lemma unsubscribeTopics_frame:
  "unsubscribeTopics D a topics bus s = (bus', s') \<Longrightarrow> spawnedAgents s' = spawnedAgents s"
proof (induction D a topics bus s rule: unsubscribeTopics.induct)
  case (1 D subAgent bus s)
  then show ?case by simp
next
  case (2 D subAgent topic rest bus s)
  obtain b1 s1 where u: "unsubscribeTopic D subAgent topic (GetSubscriptionsByAgent D bus subAgent) bus s = (b1, s1)"
    by (cases "unsubscribeTopic D subAgent topic (GetSubscriptionsByAgent D bus subAgent) bus s")
  from 2 u unsubscribeTopic_frame [OF u] show ?case by simp
qed

lemma cleanup_table:
  "spawnedAgents (cleanupSpawnedAgent D s sid reason) = AList.delete sid (spawnedAgents s)"
proof (cases "map_of (spawnedAgents s) sid")
  case None
  then have "sid \<notin> fst ` set (spawnedAgents s)" by (simp add: map_of_eq_None_iff)
  then show ?thesis using None by (simp add: cleanupSpawnedAgent_def)
next
  case (Some spawned)
  then show ?thesis
    unfolding cleanupSpawnedAgent_def Let_def
    by (auto split: option.splits prod.splits dest: unsubscribeTopics_frame)
qed

lemma autoSubscribeLoop_topics:
  "autoSubscribeLoop D a topics bus s acc = (bus', s', ts) \<Longrightarrow>
     ts = acc @ map fst (filter snd (subscribeOutcomes D a topics bus))"
proof (induction D a topics bus s acc rule: autoSubscribeLoop.induct)
  case (1 D subAgent bus s subscribedTopics)
  then show ?case by simp
next
  case (2 D subAgent topic rest bus s subscribedTopics)
  obtain r b where sub: "Subscribe D bus subAgent topic = (r, b)"
    by (cases "Subscribe D bus subAgent topic")
  show ?case
  proof (cases r)
    case (Inl err)
    with 2 sub show ?thesis by simp
  next
    case (Inr subscription)
    with 2 sub show ?thesis by simp
  qed
qed

lemma autoSubscribeAll_topics:
  "autoSubscribeAll D a req s = (s', ts) \<Longrightarrow>
     ts = (case messageBus s of
             None \<Rightarrow> []
           | Some bus \<Rightarrow> map fst (filter snd (subscribeOutcomes D a (AutoSubscribe req) bus)))"
  unfolding autoSubscribeAll_def
  by (auto split: option.splits if_splits prod.splits dest: autoSubscribeLoop_topics)

lemma subscribeOutcomes_topics: "map fst (subscribeOutcomes D a topics bus) = topics"
  by (induction topics arbitrary: bus) (auto split: prod.splits)

lemma subscribeOutcomes_success:
  "(t, True) \<in> set (subscribeOutcomes D a topics bus) \<Longrightarrow>
     \<exists>b. \<not> isl (fst (Subscribe D b a t))"
proof (induction topics arbitrary: bus)
  case Nil
  then show ?case by simp
next
  case (Cons topic rest)
  obtain r b where sub: "Subscribe D bus a topic = (r, b)"
    by (cases "Subscribe D bus a topic")
  from Cons.prems sub have "(t = topic \<and> \<not> isl r) \<or> (t, True) \<in> set (subscribeOutcomes D a rest b)"
    by auto
  then show ?case
  proof
    assume "t = topic \<and> \<not> isl r"
    with sub have "\<not> isl (fst (Subscribe D bus a t))" by simp
    then show ?thesis by blast
  next
    assume "(t, True) \<in> set (subscribeOutcomes D a rest b)"
    then show ?thesis by (rule Cons.IH)
  qed
qed

lemma SpawnSubAgent_admitted:
  assumes "spawnAdmitted D sid now s req"
  shows "\<exists>s'. SpawnSubAgent D sid now s (Some req) =
           (Inr \<lparr>SubAgentID = subAgentIDOf req, SessionID = sid, Status = ''spawned'',
                 SubscribedTopics =
                   (case messageBus s of
                      None \<Rightarrow> []
                    | Some bus \<Rightarrow>
                        map fst (filter snd
                          (subscribeOutcomes D (subAgentIDOf req) (AutoSubscribe req) bus)))\<rparr>, s')"
proof -
  from assms obtain reg ag where
    v: "ParentSessionID req \<noteq> []" "AgentID req \<noteq> []" "registry s = Some reg"
       "getOrLoadAgent D reg (AgentID req) = Inr ag"
       "\<not> 10 \<le> countSpawnedAgentsByParent s (ParentSessionID req)"
    by (cases "registry s"; cases "getOrLoadAgent D (the (registry s)) (AgentID req)")
       (auto simp: spawnAdmitted_def)
  define s1 where "s1 = logmsg ''info'' ''Spawning sub-agent''
                 [(''parent_session'', ParentSessionID req), (''parent_agent'', ParentAgentID req),
                  (''agent_id'', AgentID req), (''workflow_id'', WorkflowID req)] s"
  have cnt: "countSpawnedAgentsByParent s1 (ParentSessionID req)
                 = countSpawnedAgentsByParent s (ParentSessionID req)"
    by (simp add: count_filter s1_def)
  have st1: "sessionStore s1 = sessionStore s" "messageBus s1 = messageBus s"
    by (simp_all add: s1_def)
  define session where "session = \<lparr>sess_ID = sid, sess_AgentID = AgentID req,
                     sess_ParentSessionID = ParentSessionID req,
                     sess_CreatedAt = now, sess_UpdatedAt = now\<rparr>"
  from assms obtain store' where sv: "SaveSession D (sessionStore s1) session = (None, store')"
    by (cases "SaveSession D (sessionStore s) session")
       (auto simp: spawnAdmitted_def session_def st1)
  define s2 where "s2 = logmsg ''info'' ''Created sub-agent session''
                 [(''session_id'', sid), (''sub_agent_id'', subAgentIDOf req)]
                 (s1\<lparr>sessionStore := store'\<rparr>)"
  have bus2: "messageBus s2 = messageBus s" by (simp add: s2_def st1)
  obtain s3 ts where au: "autoSubscribeAll D (subAgentIDOf req) req s2 = (s3, ts)"
    by (cases "autoSubscribeAll D (subAgentIDOf req) req s2")
  obtain resp s8 where tr: "trackSpawnedAgent req (subAgentIDOf req) sid ag now ts s3 = (resp, s8)"
    by (cases "trackSpawnedAgent req (subAgentIDOf req) sid ag now ts s3")
  have resp: "resp = \<lparr>SubAgentID = subAgentIDOf req, SessionID = sid, Status = ''spawned'',
                       SubscribedTopics = ts\<rparr>"
    using trackSpawnedAgent_fst [of req "subAgentIDOf req" sid ag now ts s3] tr by simp
  have "SpawnSubAgent D sid now s (Some req) = (Inr resp, s8)"
    using v cnt sv au tr
    by (simp add: SpawnSubAgent_def Let_def s1_def [symmetric] session_def [symmetric]
          subAgentIDOf_def [symmetric] s2_def [symmetric])
  then show ?thesis
    using resp autoSubscribeAll_topics [OF au] bus2 by simp
qed

lemma spawn_preserves_limit:
  assumes "\<forall>P. countSpawnedAgentsByParent s P \<le> 10"
  shows "countSpawnedAgentsByParent (snd (SpawnSubAgent D sid now s r)) P \<le> 10"
proof -
  from SpawnSubAgent_cases [of D sid now s r]
  consider (err) "spawnedAgents (snd (SpawnSubAgent D sid now s r)) = spawnedAgents s"
    | (ok) req sa where "r = Some req"
        "countSpawnedAgentsByParent s (ParentSessionID req) < 10"
        "parentSessionID sa = ParentSessionID req"
        "spawnedAgents (snd (SpawnSubAgent D sid now s r)) = AList.update sid sa (spawnedAgents s)"
    by blast
  then show ?thesis
  proof cases
    case err
    then show ?thesis using assms by (simp add: count_filter)
  next
    case ok
    let ?Q = "\<lambda>(sessionID, spawned). parentSessionID spawned = P"
    have "countSpawnedAgentsByParent (snd (SpawnSubAgent D sid now s r)) P
            \<le> countSpawnedAgentsByParent s P + (if ?Q (sid, sa) then 1 else 0)"
      using update_count [of ?Q sid sa "spawnedAgents s"] ok(4)
      by (simp add: count_filter)
    moreover have "countSpawnedAgentsByParent s P \<le> 10" using assms by simp
    ultimately show ?thesis using ok(2,3) by (cases "ParentSessionID req = P") auto
  qed
qed

lemma cleanup_count:
  "countSpawnedAgentsByParent (cleanupSpawnedAgent D s sid reason) P
     \<le> countSpawnedAgentsByParent s P"
  by (simp add: count_filter cleanup_table delete_count)

lemma cleanup_fold_count:
  "countSpawnedAgentsByParent
     (fold (\<lambda>sessionID s'. cleanupSpawnedAgent D s' sessionID reason) ids s) P
     \<le> countSpawnedAgentsByParent s P"
proof (induction ids arbitrary: s)
  case Nil
  then show ?case by simp
next
  case (Cons sid ids)
  have "countSpawnedAgentsByParent
          (fold (\<lambda>sessionID s'. cleanupSpawnedAgent D s' sessionID reason) ids
             (cleanupSpawnedAgent D s sid reason)) P
        \<le> countSpawnedAgentsByParent (cleanupSpawnedAgent D s sid reason) P"
    by (rule Cons.IH)
  also have "\<dots> \<le> countSpawnedAgentsByParent s P" by (rule cleanup_count)
  finally show ?case by simp
qed

lemma cleanupByParent_count:
  "countSpawnedAgentsByParent (cleanupSpawnedAgentsByParent D s parent) P
     \<le> countSpawnedAgentsByParent s P"
proof -
  have "countSpawnedAgentsByParent (logmsg l m f s) P = countSpawnedAgentsByParent s P" for l m f
    by (simp add: count_filter)
  then show ?thesis
    unfolding cleanupSpawnedAgentsByParent_def Let_def
    using cleanup_fold_count [of D "''parent session ended''" _ "logmsg _ _ _ s" P]
    by (auto simp del: fold_simps)
qed

lemma applyOp_preserves_limit:
  assumes "\<forall>P. countSpawnedAgentsByParent s P \<le> 10"
  shows "\<forall>P. countSpawnedAgentsByParent (applyOp D s x) P \<le> 10"
proof (cases x)
  case (OpSpawn sid now r)
  then show ?thesis using spawn_preserves_limit [OF assms] by simp
next
  case (OpCleanup sid reason)
  then show ?thesis using assms cleanup_count [of D s sid reason] by (auto intro: order_trans)
next
  case (OpCleanupByParent parent)
  then show ?thesis using assms cleanupByParent_count [of D s parent] by (auto intro: order_trans)
qed

lemma runOps_preserves_limit:
  "\<forall>P. countSpawnedAgentsByParent s P \<le> 10 \<Longrightarrow>
     \<forall>P. countSpawnedAgentsByParent (runOps D s ops) P \<le> 10"
  unfolding runOps_def
  by (induction ops arbitrary: s) (simp_all add: applyOp_preserves_limit del: applyOp.simps)

lemma spawn_at_limit:
  assumes "10 \<le> countSpawnedAgentsByParent s (ParentSessionID req)"
  shows "isl (fst (SpawnSubAgent D sid now s (Some req)))"
    and "(snd (SpawnSubAgent D sid now s (Some req)))\<lparr>logged := logged s\<rparr> = s"
    and "ParentSessionID req \<noteq> [] \<and> AgentID req \<noteq> [] \<and> registry s \<noteq> None \<Longrightarrow>
           fst (SpawnSubAgent D sid now s (Some req))
             = Inl (ErrSpawnLimit (countSpawnedAgentsByParent s (ParentSessionID req)) 10)"
proof -
  have cnt: "countSpawnedAgentsByParent (logmsg l m f s) P = countSpawnedAgentsByParent s P" for l m f P
    by (simp add: count_filter)
  have lg: "(logmsg l m f s)\<lparr>logged := logged s\<rparr> = s" for l m f
    by (simp add: logmsg_def)
  show "isl (fst (SpawnSubAgent D sid now s (Some req)))"
    using assms by (cases "registry s") (simp_all add: SpawnSubAgent_def Let_def cnt)
  show "(snd (SpawnSubAgent D sid now s (Some req)))\<lparr>logged := logged s\<rparr> = s"
    using assms by (cases "registry s") (simp_all add: SpawnSubAgent_def Let_def cnt lg)
  show "ParentSessionID req \<noteq> [] \<and> AgentID req \<noteq> [] \<and> registry s \<noteq> None \<Longrightarrow>
           fst (SpawnSubAgent D sid now s (Some req))
             = Inl (ErrSpawnLimit (countSpawnedAgentsByParent s (ParentSessionID req)) 10)"
    using assms by (cases "registry s") (simp_all add: SpawnSubAgent_def Let_def cnt)
qed

lemma cleanup_absent:
  "map_of (spawnedAgents s) sid = None \<Longrightarrow> cleanupSpawnedAgent D s sid reason = s"
  by (simp add: cleanupSpawnedAgent_def)

lemma cleanup_removes:
  "map_of (spawnedAgents (cleanupSpawnedAgent D s sid reason)) sid = None"
  by (simp add: cleanup_table map_of_eq_None_iff delete_notin_dom)

text \<open>
  The spawn table stays a map: the keys of the association list stay distinct, so the
  count over the list is the count over the Go map.
\<close>

lemma spawn_distinct:
  assumes "distinct (map fst (spawnedAgents s))"
  shows "distinct (map fst (spawnedAgents (snd (SpawnSubAgent D sid now s r))))"
  using SpawnSubAgent_cases [of D sid now s r] assms
  by (auto simp: distinct_update)

lemma cleanup_distinct:
  "distinct (map fst (spawnedAgents s)) \<Longrightarrow>
     distinct (map fst (spawnedAgents (cleanupSpawnedAgent D s sid reason)))"
  by (simp add: cleanup_table distinct_delete)

lemma cleanup_fold_distinct:
  "distinct (map fst (spawnedAgents s)) \<Longrightarrow>
     distinct (map fst (spawnedAgents
       (fold (\<lambda>sessionID s'. cleanupSpawnedAgent D s' sessionID reason) ids s)))"
  by (induction ids arbitrary: s) (simp_all add: cleanup_distinct)

lemma cleanupByParent_distinct:
  assumes "distinct (map fst (spawnedAgents s))"
  shows "distinct (map fst (spawnedAgents (cleanupSpawnedAgentsByParent D s parent)))"
proof -
  have "distinct (map fst (spawnedAgents (logmsg l m f s)))" for l m f
    using assms by simp
  then show ?thesis
    unfolding cleanupSpawnedAgentsByParent_def Let_def
    using assms cleanup_fold_distinct [of "logmsg _ _ _ s" D "''parent session ended''"]
    by (auto simp del: fold_simps)
qed

lemma runOps_distinct:
  "distinct (map fst (spawnedAgents s)) \<Longrightarrow>
     distinct (map fst (spawnedAgents (runOps D s ops)))"
  unfolding runOps_def
proof (induction ops arbitrary: s)
  case Nil
  then show ?case by simp
next
  case (Cons x ops)
  have "distinct (map fst (spawnedAgents (applyOp D s x)))"
    using Cons.prems
    by (cases x) (simp_all add: spawn_distinct cleanup_distinct cleanupByParent_distinct)
  then show ?case using Cons.IH by simp
qed

text \<open>
  Calls that run one after another. When the parent of a request has ten or more
  children in the spawn table, \<^verbatim>\<open>SpawnSubAgent\<close> fails, the spawn table is as before and
  so is the rest of the server but for at most one new entry of its log; the error is
  the spawn-limit error when the request names a parent session and an agent and the
  registry is configured, and the error of the validation that fails first otherwise.
  And when calls of \<^verbatim>\<open>SpawnSubAgent\<close>, \<^verbatim>\<open>cleanupSpawnedAgent\<close> and
  \<^verbatim>\<open>cleanupSpawnedAgentsByParent\<close> run one after another on a server where no parent
  has more than ten children, no parent has more than ten afterwards.
\<close>

theorem sequential_spawn_limit:
  "(10 \<le> countSpawnedAgentsByParent s (ParentSessionID req) \<longrightarrow>
      isl (fst (SpawnSubAgent D sid now s (Some req)))
      \<and> spawnedAgents (snd (SpawnSubAgent D sid now s (Some req))) = spawnedAgents s
      \<and> (snd (SpawnSubAgent D sid now s (Some req)))\<lparr>logged := logged s\<rparr> = s
      \<and> (logged (snd (SpawnSubAgent D sid now s (Some req))) = logged s
         \<or> (\<exists>entry. logged (snd (SpawnSubAgent D sid now s (Some req))) = logged s @ [entry]))
      \<and> (ParentSessionID req \<noteq> [] \<and> AgentID req \<noteq> [] \<and> registry s \<noteq> None \<longrightarrow>
           fst (SpawnSubAgent D sid now s (Some req))
             = Inl (ErrSpawnLimit (countSpawnedAgentsByParent s (ParentSessionID req)) 10))
      \<and> (ParentSessionID req = [] \<longrightarrow>
           fst (SpawnSubAgent D sid now s (Some req)) = Inl ErrParentSessionRequired)
      \<and> (ParentSessionID req \<noteq> [] \<and> AgentID req = [] \<longrightarrow>
           fst (SpawnSubAgent D sid now s (Some req)) = Inl ErrAgentIDRequired)
      \<and> (ParentSessionID req \<noteq> [] \<and> AgentID req \<noteq> [] \<and> registry s = None \<longrightarrow>
           fst (SpawnSubAgent D sid now s (Some req)) = Inl ErrRegistryNotConfigured))
   \<and> ((\<forall>P. countSpawnedAgentsByParent s P \<le> 10) \<longrightarrow>
        (\<forall>P. countSpawnedAgentsByParent (runOps D s ops) P \<le> 10))"
proof (intro conjI impI)
  assume a: "10 \<le> countSpawnedAgentsByParent s (ParentSessionID req)"
  have cnt: "countSpawnedAgentsByParent (logmsg l m f s) P = countSpawnedAgentsByParent s P"
    for l m f P
    by (simp add: count_filter)
  show "isl (fst (SpawnSubAgent D sid now s (Some req)))"
    by (rule spawn_at_limit(1) [OF a])
  show frame: "(snd (SpawnSubAgent D sid now s (Some req)))\<lparr>logged := logged s\<rparr> = s"
    by (rule spawn_at_limit(2) [OF a])
  have "spawnedAgents ((snd (SpawnSubAgent D sid now s (Some req)))\<lparr>logged := logged s\<rparr>)
          = spawnedAgents s"
    by (simp only: frame)
  then show "spawnedAgents (snd (SpawnSubAgent D sid now s (Some req))) = spawnedAgents s"
    by simp
  have "snd (SpawnSubAgent D sid now s (Some req)) = s
        \<or> (\<exists>l m f. snd (SpawnSubAgent D sid now s (Some req)) = logmsg l m f s)"
    using a by (cases "registry s") (auto simp add: SpawnSubAgent_def Let_def cnt)
  then show "logged (snd (SpawnSubAgent D sid now s (Some req))) = logged s
         \<or> (\<exists>entry. logged (snd (SpawnSubAgent D sid now s (Some req))) = logged s @ [entry])"
    by (auto simp: logmsg_def)
  {
    assume "ParentSessionID req \<noteq> [] \<and> AgentID req \<noteq> [] \<and> registry s \<noteq> None"
    then show "fst (SpawnSubAgent D sid now s (Some req))
               = Inl (ErrSpawnLimit (countSpawnedAgentsByParent s (ParentSessionID req)) 10)"
      by (rule spawn_at_limit(3) [OF a])
  }
  {
    assume "ParentSessionID req = []"
    then show "fst (SpawnSubAgent D sid now s (Some req)) = Inl ErrParentSessionRequired"
      by (simp add: SpawnSubAgent_def)
  }
  {
    assume "ParentSessionID req \<noteq> [] \<and> AgentID req = []"
    then show "fst (SpawnSubAgent D sid now s (Some req)) = Inl ErrAgentIDRequired"
      by (simp add: SpawnSubAgent_def)
  }
  {
    assume "ParentSessionID req \<noteq> [] \<and> AgentID req \<noteq> [] \<and> registry s = None"
    then show "fst (SpawnSubAgent D sid now s (Some req)) = Inl ErrRegistryNotConfigured"
      by (simp add: SpawnSubAgent_def)
  }
next
  assume "\<forall>P. countSpawnedAgentsByParent s P \<le> 10"
  then show "\<forall>P. countSpawnedAgentsByParent (runOps D s ops) P \<le> 10"
    by (rule runOps_preserves_limit)
qed

text \<open>
  The eleventh spawn of a parent is refused; after a cleanup one more is admitted and
  the next refused again.
\<close>

theorem sequential_spawn_limit_examples:
  "fst (SpawnSubAgent deps0 ''s11'' 0 srvFull (Some (reqOf ''p'' ''fighter'' [])))
     = Inl (ErrSpawnLimit 10 10)
   \<and> spawnedAgents (snd (SpawnSubAgent deps0 ''s11'' 0 srvFull (Some (reqOf ''p'' ''fighter'' []))))
     = spawnedAgents srvFull
   \<and> countSpawnedAgentsByParent
       (runOps deps0 srvFull
          [OpCleanup ''c3'' ''session expired'',
           OpSpawn ''s11'' 0 (Some (reqOf ''p'' ''fighter'' [])),
           OpSpawn ''s12'' 0 (Some (reqOf ''p'' ''wizard'' []))]) ''p'' \<le> 10"
proof -
  have c: "countSpawnedAgentsByParent srvFull P = (if P = ''p'' then 10 else 0)" for P
    by (simp add: countSpawnedAgentsByParent_def srvFull_def srv0_def childOf_def)
  have r: "ParentSessionID (reqOf ''p'' ''fighter'' []) = ''p''"
          "AgentID (reqOf ''p'' ''fighter'' []) \<noteq> []" "registry srvFull \<noteq> None"
    by (simp_all add: reqOf_def srvFull_def srv0_def)
  show ?thesis
    using sequential_spawn_limit [of srvFull "reqOf ''p'' ''fighter'' []" deps0 "''s11''" 0
        "[OpCleanup ''c3'' ''session expired'',
           OpSpawn ''s11'' 0 (Some (reqOf ''p'' ''fighter'' [])),
           OpSpawn ''s12'' 0 (Some (reqOf ''p'' ''wizard'' []))]"]
    by (simp add: c r)
qed

text \<open>
  C9. Whenever \<^verbatim>\<open>SpawnSubAgent\<close> returns a response, its status is \<^verbatim>\<open>spawned\<close>, never
  \<^verbatim>\<open>running\<close> or \<^verbatim>\<open>error\<close>.
\<close>

theorem C9_status_spawned:
  assumes "fst (SpawnSubAgent D sid now s request) = Inr resp"
  shows "Status resp = ''spawned'' \<and> Status resp \<noteq> ''running'' \<and> Status resp \<noteq> ''error''"
  using SpawnSubAgent_cases [of D sid now s request] assms by auto

lemma spawn_party:
  "fst (SpawnSubAgent deps0 ''s1'' 0 srv0 (Some (reqOf ''p'' ''fighter'' [''party'', ''closed'', ''loot''])))
     = Inr \<lparr>SubAgentID = ''dungeon:fighter'', SessionID = ''s1'', Status = ''spawned'',
            SubscribedTopics = [''party'', ''loot'']\<rparr>"
proof -
  have adm: "spawnAdmitted deps0 ''s1'' 0 srv0 (reqOf ''p'' ''fighter'' [''party'', ''closed'', ''loot''])"
    by (simp add: spawnAdmitted_def deps0_def srv0_def reqOf_def countSpawnedAgentsByParent_def)
  have out: "subscribeOutcomes deps0 ''dungeon:fighter'' [''party'', ''closed'', ''loot''] []
               = [(''party'', True), (''closed'', False), (''loot'', True)]"
    by (simp add: deps0_def)
  show ?thesis
    using SpawnSubAgent_admitted [OF adm] out
    by (auto simp: subAgentIDOf_def reqOf_def srv0_def)
qed

theorem C9_status_spawned_witness:
  "Status \<lparr>SubAgentID = ''dungeon:fighter'', SessionID = ''s1'', Status = ''spawned'',
            SubscribedTopics = [''party'', ''loot'']\<rparr> = ''spawned''
   \<and> fst (SpawnSubAgent deps0 ''s1'' 0 srv0 (Some (reqOf ''p'' ''fighter'' [''party'', ''closed'', ''loot''])))
     = Inr \<lparr>SubAgentID = ''dungeon:fighter'', SessionID = ''s1'', Status = ''spawned'',
            SubscribedTopics = [''party'', ''loot'']\<rparr>"
  using C9_status_spawned [OF spawn_party] spawn_party by simp

text \<open>
  C5. For a request that reaches the subscriptions, \<^verbatim>\<open>SpawnSubAgent\<close> succeeds whatever
  the bus answers, also with another bus or none at all. The subscribed topics of the
  response are the topics of \<^verbatim>\<open>auto_subscribe\<close> whose \<^verbatim>\<open>Subscribe\<close> call succeeded, in the
  order of the request (none without a bus); a topic for which \<^verbatim>\<open>Subscribe\<close>
  fails in every state of the bus is not among them.
\<close>

theorem C5_auto_subscribe:
  assumes "spawnAdmitted D sid now s req"
  shows "fst (SpawnSubAgent D sid now s (Some req)) =
           Inr \<lparr>SubAgentID = subAgentIDOf req, SessionID = sid, Status = ''spawned'',
                 SubscribedTopics =
                   (case messageBus s of
                      None \<Rightarrow> []
                    | Some bus \<Rightarrow>
                        map fst (filter snd
                          (subscribeOutcomes D (subAgentIDOf req) (AutoSubscribe req) bus)))\<rparr>
         \<and> (\<forall>bus. map fst (subscribeOutcomes D (subAgentIDOf req) (AutoSubscribe req) bus)
                     = AutoSubscribe req)
         \<and> (\<forall>t resp. fst (SpawnSubAgent D sid now s (Some req)) = Inr resp
                \<and> (\<forall>b. isl (fst (Subscribe D b (subAgentIDOf req) t)))
                \<longrightarrow> t \<notin> set (SubscribedTopics resp))
         \<and> (\<forall>f b. \<not> isl (fst (SpawnSubAgent (D\<lparr>Subscribe := f\<rparr>) sid now
                                    (s\<lparr>messageBus := b\<rparr>) (Some req))))"
proof (intro conjI allI impI)
  from SpawnSubAgent_admitted [OF assms]
  show eq: "fst (SpawnSubAgent D sid now s (Some req)) =
           Inr \<lparr>SubAgentID = subAgentIDOf req, SessionID = sid, Status = ''spawned'',
                 SubscribedTopics =
                   (case messageBus s of
                      None \<Rightarrow> []
                    | Some bus \<Rightarrow>
                        map fst (filter snd
                          (subscribeOutcomes D (subAgentIDOf req) (AutoSubscribe req) bus)))\<rparr>"
    by auto
  show "map fst (subscribeOutcomes D (subAgentIDOf req) (AutoSubscribe req) bus) = AutoSubscribe req"
    for bus by (rule subscribeOutcomes_topics)
  show "t \<notin> set (SubscribedTopics resp)"
    if h: "fst (SpawnSubAgent D sid now s (Some req)) = Inr resp
           \<and> (\<forall>b. isl (fst (Subscribe D b (subAgentIDOf req) t)))" for t resp
  proof
    assume "t \<in> set (SubscribedTopics resp)"
    with h eq obtain bus where
      "(t, True) \<in> set (subscribeOutcomes D (subAgentIDOf req) (AutoSubscribe req) bus)"
      by (cases "messageBus s") auto
    from subscribeOutcomes_success [OF this] h show False by blast
  qed
  show "\<not> isl (fst (SpawnSubAgent (D\<lparr>Subscribe := f\<rparr>) sid now (s\<lparr>messageBus := b\<rparr>) (Some req)))"
    for f b
  proof -
    have "spawnAdmitted (D\<lparr>Subscribe := f\<rparr>) sid now (s\<lparr>messageBus := b\<rparr>) req"
      using assms by (auto simp: spawnAdmitted_def count_filter split: option.splits)
    from SpawnSubAgent_admitted [OF this] show ?thesis by auto
  qed
qed

theorem C5_auto_subscribe_witness:
  "fst (SpawnSubAgent deps0 ''s1'' 0 srv0 (Some (reqOf ''p'' ''wizard'' [''closed'', ''party''])))
     = Inr \<lparr>SubAgentID = ''dungeon:wizard'', SessionID = ''s1'', Status = ''spawned'',
            SubscribedTopics = [''party'']\<rparr>"
proof -
  have adm: "spawnAdmitted deps0 ''s1'' 0 srv0 (reqOf ''p'' ''wizard'' [''closed'', ''party''])"
    by (simp add: spawnAdmitted_def deps0_def srv0_def reqOf_def countSpawnedAgentsByParent_def)
  have out: "subscribeOutcomes deps0 ''dungeon:wizard'' [''closed'', ''party''] []
               = [(''closed'', False), (''party'', True)]"
    by (simp add: deps0_def)
  show ?thesis
    using C5_auto_subscribe [OF adm] out
    by (simp add: subAgentIDOf_def reqOf_def srv0_def)
qed

text \<open>
  C10. \<^verbatim>\<open>cleanupSpawnedAgent\<close> on a session id that is not in the spawn table returns the
  server as it is: nothing is canceled, unsubscribed or logged. Hence a second cleanup
  of the same id, with any reason, changes nothing.
\<close>

theorem C10_cleanup_idempotent:
  "(map_of (spawnedAgents s) sessionID = None \<longrightarrow> cleanupSpawnedAgent D s sessionID reason = s)
   \<and> cleanupSpawnedAgent D (cleanupSpawnedAgent D s sessionID reason) sessionID reason'
       = cleanupSpawnedAgent D s sessionID reason"
proof
  show "map_of (spawnedAgents s) sessionID = None \<longrightarrow> cleanupSpawnedAgent D s sessionID reason = s"
    by (simp add: cleanup_absent)
  have "map_of (spawnedAgents (cleanupSpawnedAgent D s sessionID reason)) sessionID = None"
    by (rule cleanup_removes)
  then show "cleanupSpawnedAgent D (cleanupSpawnedAgent D s sessionID reason) sessionID reason'
       = cleanupSpawnedAgent D s sessionID reason"
    by (rule cleanup_absent)
qed


theorem C10_cleanup_idempotent_witness:
  "cleanupSpawnedAgent deps0 srvOne ''c2'' ''session expired'' = srvOne
   \<and> canceled (cleanupSpawnedAgent deps0 srvOne ''c1'' ''session expired'') = {0}
   \<and> messageBus (cleanupSpawnedAgent deps0 srvOne ''c1'' ''session expired'')
       = Some [(''wizard'', \<lparr>sub_ID = ''wizard/party'', sub_Topic = ''party''\<rparr>)]
   \<and> cleanupSpawnedAgent deps0 (cleanupSpawnedAgent deps0 srvOne ''c1'' ''session expired'')
        ''c1'' ''parent context canceled''
      = cleanupSpawnedAgent deps0 srvOne ''c1'' ''session expired''"
proof -
  have a: "map_of (spawnedAgents srvOne) ''c2'' = None"
    by (simp add: srvOne_def)
  have b: "canceled (cleanupSpawnedAgent deps0 srvOne ''c1'' ''session expired'') = {0}"
    "messageBus (cleanupSpawnedAgent deps0 srvOne ''c1'' ''session expired'')
       = Some [(''wizard'', \<lparr>sub_ID = ''wizard/party'', sub_Topic = ''party''\<rparr>)]"
    by (simp_all add: cleanupSpawnedAgent_def srvOne_def srv0_def childOf_def deps0_def logmsg_def Let_def)
  show ?thesis
    using C10_cleanup_idempotent [where s = srvOne and sessionID = "''c2''" and D = deps0
              and reason = "''session expired''" and reason' = "''parent context canceled''"]
          C10_cleanup_idempotent [where s = srvOne and sessionID = "''c1''" and D = deps0
              and reason = "''session expired''" and reason' = "''parent context canceled''"]
          a b
    by simp
qed

section \<open>The spawn_agent tool\<close>

lemma Execute_no_handler:
  "tool_handler t = None \<Longrightarrow>
     Execute t elapsedMs params w =
       ((failedResult
           \<lparr>Code = ''SPAWN_NOT_AVAILABLE'',
            Message = ''Agent spawning not configured for this server'',
            Suggestion = ''spawn_agent requires MultiAgentServer with agent registry'',
            Retryable = False\<rparr> elapsedMs, None), w)"
  by (simp add: Execute_def)

lemma Execute_invalid_agent_id:
  "tool_handler t = Some h \<Longrightarrow>
   assertString (params ''agent_id'') = None \<or> assertString (params ''agent_id'') = Some [] \<Longrightarrow>
     Execute t elapsedMs params w =
       ((failedResult
           \<lparr>Code = ''INVALID_AGENT_ID'',
            Message = ''agent_id must be a non-empty string'',
            Suggestion = ''Provide agent_id like 'fighter' or 'analyst'' @ [CHR 0x27],
            Retryable = False\<rparr> elapsedMs, None), w)"
  by (auto simp: Execute_def)

lemma Execute_spawn_failed:
  "tool_handler t = Some h \<Longrightarrow> assertString (params ''agent_id'') = Some agentID \<Longrightarrow>
   agentID \<noteq> [] \<Longrightarrow> h w (buildRequest t agentID params) = (Inl err, w') \<Longrightarrow>
     Execute t elapsedMs params w =
       ((failedResult
           \<lparr>Code = ''SPAWN_FAILED'',
            Message = ''Failed to spawn agent: '' @ err,
            Suggestion = ''Check if agent config exists and server has capacity'',
            Retryable = True\<rparr> elapsedMs, None), w')"
  by (simp add: Execute_def)

lemma Execute_spawned:
  "tool_handler t = Some h \<Longrightarrow> assertString (params ''agent_id'') = Some agentID \<Longrightarrow>
   agentID \<noteq> [] \<Longrightarrow> h w (buildRequest t agentID params) = (Inr resp, w') \<Longrightarrow>
     Execute t elapsedMs params w =
       ((\<lparr>Success = True,
          Data = VMap [(''success'', VBool True),
                       (''sub_agent_id'', VString (SubAgentID resp)),
                       (''session_id'', VString (SessionID resp)),
                       (''status'', VString (Status resp)),
                       (''subscribed_topics'', VStrings (SubscribedTopics resp))],
          Error = None,
          ResultMetadata = Some [(''sub_agent_id'', VString (SubAgentID resp)),
                                 (''session_id'', VString (SessionID resp)),
                                 (''subscribed_topics'', VStrings (SubscribedTopics resp))],
          ExecutionTimeMs = elapsedMs\<rparr>, None), w')"
  by (simp add: Execute_def)

lemma Execute_cases:
  obtains (no_handler) "tool_handler t = None"
  | (invalid) h where "tool_handler t = Some h"
      "assertString (params ''agent_id'') = None \<or> assertString (params ''agent_id'') = Some []"
  | (failed) h agentID err w' where "tool_handler t = Some h"
      "assertString (params ''agent_id'') = Some agentID" "agentID \<noteq> []"
      "h w (buildRequest t agentID params) = (Inl err, w')"
  | (spawned) h agentID resp w' where "tool_handler t = Some h"
      "assertString (params ''agent_id'') = Some agentID" "agentID \<noteq> []"
      "h w (buildRequest t agentID params) = (Inr resp, w')"
proof (cases "tool_handler t")
  case None
  then show ?thesis by (rule no_handler)
next
  case (Some h)
  show ?thesis
  proof (cases "assertString (params ''agent_id'')")
    case None
    with Some show ?thesis by (auto intro: invalid)
  next
    case a: (Some agentID)
    show ?thesis
    proof (cases "agentID = []")
      case True
      with Some a show ?thesis by (auto intro: invalid)
    next
      case False
      obtain res w' where r: "h w (buildRequest t agentID params) = (res, w')"
        by (cases "h w (buildRequest t agentID params)")
      show ?thesis
      proof (cases res)
        case (Inl err)
        with Some a False r show ?thesis by (auto intro: failed)
      next
        case (Inr resp)
        with Some a False r show ?thesis by (auto intro: spawned)
      qed
    qed
  qed
qed

text \<open>
  C4. \<^verbatim>\<open>Execute\<close> always returns a nil Go error. Its result is a success exactly when it
  carries no error, and a failed result carries an error with a code, a message and a
  suggestion (and the retryable flag): \<^verbatim>\<open>SPAWN_NOT_AVAILABLE\<close> without a handler,
  \<^verbatim>\<open>INVALID_AGENT_ID\<close> when \<^verbatim>\<open>agent_id\<close> is missing, not a string or empty, and
  \<^verbatim>\<open>SPAWN_FAILED\<close>, retryable and with the handler's error in the message, when the handler
  fails. In the first two cases the handler is not called: its state is as before, so
  nothing is spawned.
\<close>

theorem C4_execute_structured:
  assumes "r = fst (fst (Execute t elapsedMs params w))"
    and "w' = snd (Execute t elapsedMs params w)"
  shows "snd (fst (Execute t elapsedMs params w)) = None
    \<and> (Success r \<longleftrightarrow> Error r = None)
    \<and> (\<not> Success r \<longrightarrow>
         (\<exists>e. Error r = Some e \<and> Code e \<noteq> [] \<and> Message e \<noteq> [] \<and> Suggestion e \<noteq> []))
    \<and> (tool_handler t = None \<longrightarrow>
         w' = w
         \<and> Error r = Some \<lparr>Code = ''SPAWN_NOT_AVAILABLE'',
                            Message = ''Agent spawning not configured for this server'',
                            Suggestion = ''spawn_agent requires MultiAgentServer with agent registry'',
                            Retryable = False\<rparr>)
    \<and> (assertString (params ''agent_id'') = None \<or> assertString (params ''agent_id'') = Some [] \<longrightarrow>
         \<not> Success r \<and> w' = w
         \<and> (tool_handler t \<noteq> None \<longrightarrow>
              Error r = Some \<lparr>Code = ''INVALID_AGENT_ID'',
                                Message = ''agent_id must be a non-empty string'',
                                Suggestion = ''Provide agent_id like 'fighter' or 'analyst'' @ [CHR 0x27],
                                Retryable = False\<rparr>))
    \<and> (\<forall>h agentID err w1.
          tool_handler t = Some h \<and> assertString (params ''agent_id'') = Some agentID
          \<and> agentID \<noteq> [] \<and> h w (buildRequest t agentID params) = (Inl err, w1) \<longrightarrow>
          w' = w1
          \<and> Error r = Some \<lparr>Code = ''SPAWN_FAILED'',
                             Message = ''Failed to spawn agent: '' @ err,
                             Suggestion = ''Check if agent config exists and server has capacity'',
                             Retryable = True\<rparr>)"
proof (cases rule: Execute_cases [where t = t and params = params and w = w])
  case no_handler
  show ?thesis
    unfolding assms Execute_no_handler [OF no_handler] using no_handler
    by (simp add: failedResult_def)
next
  case (invalid h)
  show ?thesis
    unfolding assms Execute_invalid_agent_id [where params = params, OF invalid] using invalid
    by (auto simp: failedResult_def)
next
  case (failed h agentID err w1)
  show ?thesis
    unfolding assms Execute_spawn_failed [where params = params, OF failed] using failed
    by (simp add: failedResult_def)
next
  case (spawned h agentID resp w1)
  show ?thesis
    unfolding assms Execute_spawned [where params = params, OF spawned] using spawned
    by simp
qed

lemma handler_at_limit:
  "serverHandler deps0 ''s11'' 0 srvFull (buildRequest tool0 ''fighter'' [''agent_id'' \<mapsto> VString ''fighter''])
     = (Inl ''spawn limit reached: parent has 10 spawned agents (max: 10)'',
        snd (SpawnSubAgent deps0 ''s11'' 0 srvFull
               (Some (buildRequest tool0 ''fighter'' [''agent_id'' \<mapsto> VString ''fighter'']))))"
proof -
  let ?req = "buildRequest tool0 ''fighter'' [''agent_id'' \<mapsto> VString ''fighter'']"
  have p: "ParentSessionID ?req = ''p''" "AgentID ?req \<noteq> []" "registry srvFull \<noteq> None"
    by (simp_all add: buildRequest_def tool0_def srvFull_def srv0_def)
  have c: "countSpawnedAgentsByParent srvFull ''p'' = 10"
    by (simp add: countSpawnedAgentsByParent_def srvFull_def srv0_def childOf_def)
  have "fst (SpawnSubAgent deps0 ''s11'' 0 srvFull (Some ?req)) = Inl (ErrSpawnLimit 10 10)"
    using spawn_at_limit(3) [of srvFull ?req deps0 "''s11''" 0] p c by simp
  then show ?thesis
    by (cases "SpawnSubAgent deps0 ''s11'' 0 srvFull (Some ?req)")
       (simp add: serverHandler_def showNat.simps digitChar_def)
qed

text \<open>
  On the concrete server: no parameters at all, an empty \<^verbatim>\<open>agent_id\<close>, and a spawn at
  the limit.
\<close>

theorem C4_execute_structured_witness:
  "fst (Execute tool0 3 Map.empty srv0)
     = (failedResult \<lparr>Code = ''INVALID_AGENT_ID'',
                      Message = ''agent_id must be a non-empty string'',
                      Suggestion = ''Provide agent_id like 'fighter' or 'analyst'' @ [CHR 0x27],
                      Retryable = False\<rparr> 3, None)
   \<and> snd (Execute tool0 3 [''agent_id'' \<mapsto> VString []] srv0) = srv0
   \<and> Error (fst (fst (Execute tool0 3 [''agent_id'' \<mapsto> VString ''fighter''] srvFull)))
       = Some \<lparr>Code = ''SPAWN_FAILED'',
               Message = ''Failed to spawn agent: spawn limit reached: parent has 10 spawned agents (max: 10)'',
               Suggestion = ''Check if agent config exists and server has capacity'',
               Retryable = True\<rparr>"
proof -
  have h: "tool_handler tool0 = Some (serverHandler deps0 ''s11'' 0)"
    by (simp add: tool0_def)
  have a: "fst (Execute tool0 3 Map.empty srv0)
     = (failedResult \<lparr>Code = ''INVALID_AGENT_ID'',
                      Message = ''agent_id must be a non-empty string'',
                      Suggestion = ''Provide agent_id like 'fighter' or 'analyst'' @ [CHR 0x27],
                      Retryable = False\<rparr> 3, None)"
    by (simp add: Execute_def h)
  show ?thesis
    using a
      C4_execute_structured [OF refl refl, of tool0 3 "[''agent_id'' \<mapsto> VString []]" srv0]
      C4_execute_structured [OF refl refl, of tool0 3 "[''agent_id'' \<mapsto> VString ''fighter'']" srvFull]
      handler_at_limit h
    by simp
qed

section \<open>The spawn manager: calls that overlap\<close>

text \<open>The two parts make up the function.\<close>

lemma SpawnSubAgent_phases:
  "SpawnSubAgent D newSessionID now s request =
     (case spawnLimitCheck s request of
        (Inl err, s1) \<Rightarrow> (Inl err, s1)
      | (Inr reg, s1) \<Rightarrow> spawnAfterLimitCheck D newSessionID now reg (the request) s1)"
proof (cases request)
  case None
  then show ?thesis by (simp add: SpawnSubAgent_def spawnLimitCheck_def)
next
  case (Some req)
  show ?thesis
  proof (cases "ParentSessionID req = [] \<or> AgentID req = [] \<or> registry s = None")
    case True
    then show ?thesis using Some by (auto simp: SpawnSubAgent_def spawnLimitCheck_def)
  next
    case False
    then obtain reg where v: "ParentSessionID req \<noteq> []" "AgentID req \<noteq> []" "registry s = Some reg"
      by auto
    show ?thesis
    proof (cases "10 \<le> countSpawnedAgentsByParent s (ParentSessionID req)")
      case True
      then show ?thesis using Some v
        by (simp add: SpawnSubAgent_def spawnLimitCheck_def Let_def count_filter)
    next
      case False
      then show ?thesis using Some v
        by (simp add: SpawnSubAgent_def spawnLimitCheck_def spawnAfterLimitCheck_def Let_def
              count_filter)
    qed
  qed
qed

lemma spawnLimitCheck_table:
  "spawnLimitCheck s r = (c, s1) \<Longrightarrow> spawnedAgents s1 = spawnedAgents s"
  by (auto simp: spawnLimitCheck_def Let_def split: option.splits if_splits)

lemma spawnLimitCheck_frame:
  "spawnLimitCheck s r = (c, s1) \<Longrightarrow>
     registry s1 = registry s \<and> sessionStore s1 = sessionStore s \<and> messageBus s1 = messageBus s"
  by (auto simp: spawnLimitCheck_def Let_def split: option.splits if_splits)

lemma spawnLimitCheck_passes:
  "ParentSessionID req \<noteq> [] \<Longrightarrow> AgentID req \<noteq> [] \<Longrightarrow> registry s = Some reg \<Longrightarrow>
   countSpawnedAgentsByParent s (ParentSessionID req) < 10 \<Longrightarrow>
     fst (spawnLimitCheck s (Some req)) = Inr reg"
  by (simp add: spawnLimitCheck_def Let_def count_filter)

lemma spawnAfterLimitCheck_ok:
  assumes "spawnAfterLimitCheck D sid now reg req s1 = (Inr resp, s')"
  shows "\<exists>sa. parentSessionID sa = ParentSessionID req
           \<and> spawnedAgents s' = AList.update sid sa (spawnedAgents s1)"
proof -
  define a where "a = (if WorkflowID req \<noteq> [] then WorkflowID req @ '':'' @ AgentID req
                      else AgentID req)"
  define session where "session = \<lparr>sess_ID = sid, sess_AgentID = AgentID req,
                     sess_ParentSessionID = ParentSessionID req,
                     sess_CreatedAt = now, sess_UpdatedAt = now\<rparr>"
  obtain eo store' where sv: "SaveSession D (sessionStore s1) session = (eo, store')"
    by (cases "SaveSession D (sessionStore s1) session")
  show ?thesis
  proof (cases "getOrLoadAgent D reg (AgentID req)")
    case (Inl err)
    with assms show ?thesis by (simp add: spawnAfterLimitCheck_def)
  next
    case (Inr ag)
    show ?thesis
    proof (cases eo)
      case (Some err)
      with assms Inr sv show ?thesis
        by (simp add: spawnAfterLimitCheck_def Let_def session_def [symmetric])
    next
      case None
      define s2 where "s2 = logmsg ''info'' ''Created sub-agent session''
                 [(''session_id'', sid), (''sub_agent_id'', a)]
                 (s1\<lparr>sessionStore := store'\<rparr>)"
      obtain s3 ts where au: "autoSubscribeAll D a req s2 = (s3, ts)"
        by (cases "autoSubscribeAll D a req s2")
      from trackSpawnedAgent_result [of req a sid ag now ts s3]
      obtain sa s8 where tr: "trackSpawnedAgent req a sid ag now ts s3 =
          (\<lparr>SubAgentID = a, SessionID = sid, Status = ''spawned'', SubscribedTopics = ts\<rparr>, s8)"
        and sa: "parentSessionID sa = ParentSessionID req"
        and tab8: "spawnedAgents s8 = AList.update sid sa (spawnedAgents s3)"
        by blast
      have tab3: "spawnedAgents s3 = spawnedAgents s1"
        using autoSubscribeAll_frame [OF au] by (simp add: s2_def)
      have "spawnAfterLimitCheck D sid now reg req s1 =
              (Inr \<lparr>SubAgentID = a, SessionID = sid, Status = ''spawned'', SubscribedTopics = ts\<rparr>, s8)"
        using Inr sv None au tr
        by (simp add: spawnAfterLimitCheck_def Let_def session_def [symmetric]
              a_def [symmetric] s2_def [symmetric])
      with assms have "s' = s8" by simp
      with sa tab8 tab3 show ?thesis by auto
    qed
  qed
qed

lemma spawnAfterLimitCheck_succeeds:
  assumes "getOrLoadAgent D reg (AgentID req) = Inr ag"
    and "\<And>store session. fst (SaveSession D store session) = None"
  shows "\<not> isl (fst (spawnAfterLimitCheck D sid now reg req s1))"
proof -
  define a where "a = (if WorkflowID req \<noteq> [] then WorkflowID req @ '':'' @ AgentID req
                      else AgentID req)"
  define session where "session = \<lparr>sess_ID = sid, sess_AgentID = AgentID req,
                     sess_ParentSessionID = ParentSessionID req,
                     sess_CreatedAt = now, sess_UpdatedAt = now\<rparr>"
  obtain store' where sv: "SaveSession D (sessionStore s1) session = (None, store')"
    using assms(2) [of "sessionStore s1" session]
    by (cases "SaveSession D (sessionStore s1) session") auto
  define s2 where "s2 = logmsg ''info'' ''Created sub-agent session''
                 [(''session_id'', sid), (''sub_agent_id'', a)]
                 (s1\<lparr>sessionStore := store'\<rparr>)"
  obtain s3 ts where au: "autoSubscribeAll D a req s2 = (s3, ts)"
    by (cases "autoSubscribeAll D a req s2")
  obtain resp s8 where tr: "trackSpawnedAgent req a sid ag now ts s3 = (resp, s8)"
    by (cases "trackSpawnedAgent req a sid ag now ts s3")
  have "spawnAfterLimitCheck D sid now reg req s1 = (Inr resp, s8)"
    using assms(1) sv au tr
    by (simp add: spawnAfterLimitCheck_def Let_def session_def [symmetric]
          a_def [symmetric] s2_def [symmetric])
  then show ?thesis by simp
qed

lemma update_count_fresh:
  "k \<notin> fst ` set al \<Longrightarrow>
     length (filter Q (AList.update k v al)) = length (filter Q al) + (if Q (k, v) then 1 else 0)"
  by (induction al) auto

text \<open>
  When two calls for the same parent overlap so that both pass the limit check before
  either inserts, and both succeed with new session ids, the parent has two children
  more than before, whatever their number was.
\<close>

lemma overlappedSpawns_count:
  assumes "overlappedSpawns D sidA nowA reqA sidB nowB reqB s = (Inr respA, Inr respB, s')"
    and "ParentSessionID reqA = P" and "ParentSessionID reqB = P"
    and "sidA \<notin> fst ` set (spawnedAgents s)" and "sidB \<notin> fst ` set (spawnedAgents s)"
    and "sidA \<noteq> sidB"
  shows "countSpawnedAgentsByParent s' P = countSpawnedAgentsByParent s P + 2"
proof -
  obtain checkA s1 where cA: "spawnLimitCheck s (Some reqA) = (checkA, s1)"
    by (cases "spawnLimitCheck s (Some reqA)")
  obtain checkB s2 where cB: "spawnLimitCheck s1 (Some reqB) = (checkB, s2)"
    by (cases "spawnLimitCheck s1 (Some reqB)")
  have t2: "spawnedAgents s2 = spawnedAgents s"
    using spawnLimitCheck_table [OF cA] spawnLimitCheck_table [OF cB] by simp
  obtain regA where rA: "checkA = Inr regA"
    using assms(1) cA cB by (cases checkA) (auto simp: overlappedSpawns_def split: prod.splits sum.splits)
  obtain s3 where pA: "spawnAfterLimitCheck D sidA nowA regA reqA s2 = (Inr respA, s3)"
    using assms(1) cA cB rA
    by (cases "spawnAfterLimitCheck D sidA nowA regA reqA s2")
       (auto simp: overlappedSpawns_def split: prod.splits sum.splits)
  obtain regB where rB: "checkB = Inr regB"
    using assms(1) cA cB rA pA by (cases checkB) (auto simp: overlappedSpawns_def split: prod.splits sum.splits)
  have pB: "spawnAfterLimitCheck D sidB nowB regB reqB s3 = (Inr respB, s')"
    using assms(1) cA cB rA pA rB
    by (cases "spawnAfterLimitCheck D sidB nowB regB reqB s3")
       (auto simp: overlappedSpawns_def split: prod.splits sum.splits)
  from spawnAfterLimitCheck_ok [OF pA] obtain saA where
    a: "parentSessionID saA = P" "spawnedAgents s3 = AList.update sidA saA (spawnedAgents s)"
    using assms(2) t2 by auto
  from spawnAfterLimitCheck_ok [OF pB] obtain saB where
    b: "parentSessionID saB = P" "spawnedAgents s' = AList.update sidB saB (spawnedAgents s3)"
    using assms(3) by auto
  let ?Q = "\<lambda>(sessionID, spawned). parentSessionID spawned = P"
  have fresh: "sidB \<notin> fst ` set (spawnedAgents s3)"
    using assms(5,6) a(2) by (simp add: dom_update)
  have "length (filter ?Q (spawnedAgents s3)) = length (filter ?Q (spawnedAgents s)) + 1"
    using update_count_fresh [OF assms(4), of ?Q saA] a by simp
  moreover have "length (filter ?Q (spawnedAgents s')) = length (filter ?Q (spawnedAgents s3)) + 1"
    using update_count_fresh [OF fresh, of ?Q saB] b by simp
  ultimately show ?thesis by (simp add: count_filter)
qed

lemma overlappedSpawns_succeed:
  assumes "ParentSessionID reqA \<noteq> []" "AgentID reqA \<noteq> []"
    and "ParentSessionID reqB \<noteq> []" "AgentID reqB \<noteq> []"
    and "registry s = Some reg"
    and "countSpawnedAgentsByParent s (ParentSessionID reqA) < 10"
    and "countSpawnedAgentsByParent s (ParentSessionID reqB) < 10"
    and "getOrLoadAgent D reg (AgentID reqA) = Inr agA"
    and "getOrLoadAgent D reg (AgentID reqB) = Inr agB"
    and "\<And>store session. fst (SaveSession D store session) = None"
  shows "\<exists>respA respB s'.
           overlappedSpawns D sidA nowA reqA sidB nowB reqB s = (Inr respA, Inr respB, s')"
proof -
  obtain s1 where cA: "spawnLimitCheck s (Some reqA) = (Inr reg, s1)"
    using spawnLimitCheck_passes [OF assms(1,2,5,6)]
    by (cases "spawnLimitCheck s (Some reqA)") auto
  have f1: "registry s1 = Some reg" "spawnedAgents s1 = spawnedAgents s"
    using spawnLimitCheck_frame [OF cA] spawnLimitCheck_table [OF cA] assms(5) by simp_all
  have "countSpawnedAgentsByParent s1 (ParentSessionID reqB) < 10"
    using assms(7) f1(2) by (simp add: count_filter)
  then obtain s2 where cB: "spawnLimitCheck s1 (Some reqB) = (Inr reg, s2)"
    using spawnLimitCheck_passes [OF assms(3,4) f1(1)]
    by (cases "spawnLimitCheck s1 (Some reqB)") auto
  obtain respA s3 where pA: "spawnAfterLimitCheck D sidA nowA reg reqA s2 = (Inr respA, s3)"
    using spawnAfterLimitCheck_succeeds [OF assms(8) assms(10), of sidA nowA s2]
    by (cases "spawnAfterLimitCheck D sidA nowA reg reqA s2"; cases "fst (spawnAfterLimitCheck D sidA nowA reg reqA s2)") auto
  obtain respB s4 where pB: "spawnAfterLimitCheck D sidB nowB reg reqB s3 = (Inr respB, s4)"
    using spawnAfterLimitCheck_succeeds [OF assms(9) assms(10), of sidB nowB s3]
    by (cases "spawnAfterLimitCheck D sidB nowB reg reqB s3"; cases "fst (spawnAfterLimitCheck D sidB nowB reg reqB s3)") auto
  show ?thesis
    using cA cB pA pB by (simp add: overlappedSpawns_def)
qed

text \<open>
  C2: a spawn request for a parent that already has ten children in the spawn table
  fails with the spawn-limit error, so that a parent never has more than ten. The check
  that the code makes for this, lines 53 to 58 under the comment "Check spawn limits
  (prevent spawn bombs)", does not achieve it: the children are counted under the read
  lock and the new child is inserted later under the write lock, and between the two
  the lock is free.
  Take a parent with nine children and two requests for it that name an agent of the
  registry, on a server whose session store saves every session. When the two calls
  overlap so that both count before either inserts, both return a response and the
  parent has eleven children in the spawn table; neither call fails with the
  spawn-limit error.
\<close>

theorem C2_overlapping_spawns_exceed_limit:
  assumes "ParentSessionID reqA = P" and "ParentSessionID reqB = P" and "P \<noteq> []"
    and "AgentID reqA \<noteq> []" and "AgentID reqB \<noteq> []"
    and "registry s = Some reg"
    and "countSpawnedAgentsByParent s P = 9"
    and "getOrLoadAgent D reg (AgentID reqA) = Inr agA"
    and "getOrLoadAgent D reg (AgentID reqB) = Inr agB"
    and "\<And>store session. fst (SaveSession D store session) = None"
    and "sidA \<notin> fst ` set (spawnedAgents s)" and "sidB \<notin> fst ` set (spawnedAgents s)"
    and "sidA \<noteq> sidB"
  shows "\<exists>respA respB s'.
           overlappedSpawns D sidA nowA reqA sidB nowB reqB s = (Inr respA, Inr respB, s')
           \<and> countSpawnedAgentsByParent s' P = 11"
proof -
  have pa: "ParentSessionID reqA \<noteq> []" and pb: "ParentSessionID reqB \<noteq> []"
    using assms(1,2,3) by simp_all
  have ca: "countSpawnedAgentsByParent s (ParentSessionID reqA) < 10"
    and cb: "countSpawnedAgentsByParent s (ParentSessionID reqB) < 10"
    using assms(1,2,7) by simp_all
  from overlappedSpawns_succeed [OF pa assms(4) pb assms(5) assms(6) ca cb assms(8) assms(9) assms(10)]
  obtain respA respB s' where
    o: "overlappedSpawns D sidA nowA reqA sidB nowB reqB s = (Inr respA, Inr respB, s')"
    by blast
  from overlappedSpawns_count [OF o assms(1) assms(2) assms(11) assms(12) assms(13)] assms(7)
  have "countSpawnedAgentsByParent s' P = 11" by simp
  with o show ?thesis by blast
qed

text \<open>
  On the concrete server: the parent \<^verbatim>\<open>p\<close> has nine children, the two overlapping calls
  spawn a fighter and a wizard, both succeed and \<^verbatim>\<open>p\<close> has eleven children.
\<close>

theorem C2_overlapping_spawns_exceed_limit_witness:
  "countSpawnedAgentsByParent srvNine ''p'' = 9
   \<and> \<not> isl (fst (overlappedSpawns deps0 ''s10'' 0 (reqOf ''p'' ''fighter'' [])
                     ''s11'' 0 (reqOf ''p'' ''wizard'' []) srvNine))
   \<and> \<not> isl (fst (snd (overlappedSpawns deps0 ''s10'' 0 (reqOf ''p'' ''fighter'' [])
                          ''s11'' 0 (reqOf ''p'' ''wizard'' []) srvNine)))
   \<and> countSpawnedAgentsByParent
        (snd (snd (overlappedSpawns deps0 ''s10'' 0 (reqOf ''p'' ''fighter'' [])
                     ''s11'' 0 (reqOf ''p'' ''wizard'' []) srvNine))) ''p'' = 11"
proof -
  have c: "countSpawnedAgentsByParent srvNine ''p'' = 9"
    by (simp add: countSpawnedAgentsByParent_def srvNine_def srv0_def childOf_def)
  have r: "ParentSessionID (reqOf ''p'' ''fighter'' []) = ''p''"
          "ParentSessionID (reqOf ''p'' ''wizard'' []) = ''p''"
    by (simp_all add: reqOf_def)
  have ag: "AgentID (reqOf ''p'' ''fighter'' []) \<noteq> []"
           "AgentID (reqOf ''p'' ''wizard'' []) \<noteq> []"
    by (simp_all add: reqOf_def)
  have g: "registry srvNine = Some [''fighter'', ''wizard'']"
    by (simp add: srvNine_def srv0_def)
  have l: "getOrLoadAgent deps0 [''fighter'', ''wizard''] (AgentID (reqOf ''p'' ''fighter'' []))
             = Inr ''fighter''"
          "getOrLoadAgent deps0 [''fighter'', ''wizard''] (AgentID (reqOf ''p'' ''wizard'' []))
             = Inr ''wizard''"
    by (simp_all add: deps0_def reqOf_def)
  have sv: "\<And>store session. fst (SaveSession deps0 store session) = None"
    by (simp add: deps0_def)
  have fresh: "''s10'' \<notin> fst ` set (spawnedAgents srvNine)"
              "''s11'' \<notin> fst ` set (spawnedAgents srvNine)"
    by (simp_all add: srvNine_def srv0_def)
  have ne: "''p'' \<noteq> []" "''s10'' \<noteq> ''s11''"
    by simp_all
  from C2_overlapping_spawns_exceed_limit
         [OF r(1) r(2) ne(1) ag(1) ag(2) g c l(1) l(2) sv fresh(1) fresh(2) ne(2), of 0 0]
  obtain respA respB s' where
    "overlappedSpawns deps0 ''s10'' 0 (reqOf ''p'' ''fighter'' [])
       ''s11'' 0 (reqOf ''p'' ''wizard'' []) srvNine = (Inr respA, Inr respB, s')"
    "countSpawnedAgentsByParent s' ''p'' = 11"
    by blast
  with c show ?thesis by simp
qed


end
